theory Spec2Isabelle
  imports Main
begin

section \<open>Token-usage monitoring: the reconciliation of one deployment's monthly record\<close>

text \<open>
  The development embeds \<^verbatim>\<open>src/functions/httpTrigger.ts\<close>. Usage totals are token
  counts and are modelled as integers. The table client and the email client are
  external libraries; every answer they can give to one reconciliation is collected
  in an environment record, so that each throw of the source is a branch of the model.
  The reconciler is given twice: as one call that nothing interrupts, and as the steps
  between its awaits, which the steps of other reconciliations may interleave; five
  steps in a row are one call (\<open>steps_evaluate\<close>).
\<close>

subsection \<open>Data model\<close>

text \<open>The table entity the source builds at lines 69-75 and reads back from the table.\<close>

record entity =
  partitionKey :: string
  rowKey :: string
  SumToken :: int
  ActionDone :: bool
  LastUpdated :: string

text \<open>
  What a rejected promise carries: a REST error with its \<^verbatim>\<open>statusCode\<close>, or a plain
  \<^verbatim>\<open>Error\<close> with its message (whose \<^verbatim>\<open>statusCode\<close> is undefined).
\<close>

datatype error = RestError nat | Error string

type_synonym table = "string \<times> string \<rightharpoonup> entity"

text \<open>The calls one reconciliation makes on its collaborators, in the order made.\<close>

datatype call =
    GetEntity string string
  | CreateEntity entity
  | UpdateEntity entity
  | SendMail string int

text \<open>
  The answers of the collaborators during one reconciliation: a transport fault for
  each table call, the sample and clock of a concurrent reconciliation that creates
  the record between this one's read and its create, the result of the mail poller
  (a throw or the final status string), and the three readings of the clock.
\<close>

record env =
  getFault :: "error option"
  racer :: "(int \<times> string) option"
  createFault :: "error option"
  mailResult :: "error + string"
  alertWriteFault :: "error option"
  usageWriteFault :: "error option"
  nowCreate :: string
  nowAlert :: string
  nowUsage :: string

text \<open>What one reconciliation leaves behind: the table, its calls, and what it
  printed with \<^verbatim>\<open>console.error\<close>.\<close>

record outcome =
  tableAfter :: table
  calls :: "call list"
  logged :: "(string \<times> error) list"

subsection \<open>The table client\<close>

text \<open>
  The contract of the three table operations the source uses: a read of a missing key
  answers 404, a create of a taken key answers 409, an update of a missing key answers
  404, and any call may fail in transport. The entity a read answers carries the key
  it was asked for. An update without an etag is unconditional, and since the source
  always sends every property, its default merge replaces the stored record.
\<close>

definition getEntity :: "error option \<Rightarrow> table \<Rightarrow> string \<Rightarrow> string \<Rightarrow> error + entity" where
  "getEntity fault t pk rk =
     (case fault of
        Some e \<Rightarrow> Inl e
      | None \<Rightarrow>
          (case t (pk, rk) of
             None \<Rightarrow> Inl (RestError 404)
           | Some ent \<Rightarrow> Inr (ent\<lparr>partitionKey := pk, rowKey := rk\<rparr>)))"

definition createEntity :: "error option \<Rightarrow> table \<Rightarrow> entity \<Rightarrow> error + table" where
  "createEntity fault t ent =
     (case fault of
        Some e \<Rightarrow> Inl e
      | None \<Rightarrow>
          (case t (partitionKey ent, rowKey ent) of
             Some _ \<Rightarrow> Inl (RestError 409)
           | None \<Rightarrow> Inr (t((partitionKey ent, rowKey ent) \<mapsto> ent))))"

definition updateEntity :: "error option \<Rightarrow> table \<Rightarrow> entity \<Rightarrow> error + table" where
  "updateEntity fault t ent =
     (case fault of
        Some e \<Rightarrow> Inl e
      | None \<Rightarrow>
          (case t (partitionKey ent, rowKey ent) of
             None \<Rightarrow> Inl (RestError 404)
           | Some _ \<Rightarrow> Inr (t((partitionKey ent, rowKey ent) \<mapsto> ent))))"

subsection \<open>The alert policy\<close>

definition THRESHOLD :: int where
  "THRESHOLD = 1000"

text \<open>Line 51: \<^verbatim>\<open>!entity?.ActionDone && sumToken > THRESHOLD\<close>; for a null entity the
  optional chain is undefined, which is falsy.\<close>

definition shouldSendAlert :: "entity option \<Rightarrow> int \<Rightarrow> bool" where
  "shouldSendAlert ent sumToken =
     (\<not> (case ent of None \<Rightarrow> False | Some e \<Rightarrow> ActionDone e) \<and> sumToken > THRESHOLD)"

subsection \<open>The reconciler\<close>

text \<open>The partition key every record of the source carries.\<close>

definition DeploymentType :: string where
  "DeploymentType = ''DeploymentType''"

definition rowKeyOf :: "string \<Rightarrow> string \<Rightarrow> string" where
  "rowKeyOf deploymentName month = deploymentName @ ''-'' @ month"

text \<open>The record of lines 69-75.\<close>

definition initialEntity :: "string \<Rightarrow> int \<Rightarrow> string \<Rightarrow> entity" where
  "initialEntity rk sumToken now =
     \<lparr>partitionKey = DeploymentType, rowKey = rk, SumToken = sumToken,
      ActionDone = False, LastUpdated = now\<rparr>"

text \<open>A concurrent reconciliation of the same key runs lines 69-76 with its own sample.\<close>

definition concurrentCreate :: "(int \<times> string) option \<Rightarrow> string \<Rightarrow> table \<Rightarrow> table" where
  "concurrentCreate r rk t =
     (case r of
        None \<Rightarrow> t
      | Some (n, now) \<Rightarrow>
          (case createEntity None t (initialEntity rk n now) of
             Inl _ \<Rightarrow> t
           | Inr t' \<Rightarrow> t'))"

text \<open>Lines 64-80: read the record, or create it when the read answers 404.\<close>

definition readOrCreate ::
  "env \<Rightarrow> string \<Rightarrow> int \<Rightarrow> table \<Rightarrow> table \<times> call list \<times> (error + entity)" where
  "readOrCreate e rk sumToken t =
     (case getEntity (getFault e) t DeploymentType rk of
        Inr ent \<Rightarrow> (t, [GetEntity DeploymentType rk], Inr ent)
      | Inl err \<Rightarrow>
          (if err = RestError 404 then
             (let ent = initialEntity rk sumToken (nowCreate e);
                  t1 = concurrentCreate (racer e) rk t
              in (case createEntity (createFault e) t1 ent of
                    Inl err' \<Rightarrow>
                      (t1, [GetEntity DeploymentType rk, CreateEntity ent], Inl err')
                  | Inr t2 \<Rightarrow>
                      (t2, [GetEntity DeploymentType rk, CreateEntity ent], Inr ent)))
           else (t, [GetEntity DeploymentType rk], Inl err)))"

text \<open>Lines 107-127: the status of the finished poller, or its throw.\<close>

definition sendMail :: "env \<Rightarrow> string \<Rightarrow> int \<Rightarrow> error + string" where
  "sendMail e deploymentName sumToken = mailResult e"

text \<open>Lines 83-95.\<close>

definition alertStep ::
  "env \<Rightarrow> string \<Rightarrow> int \<Rightarrow> entity \<Rightarrow> table \<Rightarrow> table \<times> call list \<times> (error + entity)" where
  "alertStep e deploymentName sumToken ent t =
     (if shouldSendAlert (Some ent) sumToken then
        (case sendMail e deploymentName sumToken of
           Inl err \<Rightarrow> (t, [SendMail deploymentName sumToken], Inl err)
         | Inr result \<Rightarrow>
             (if result = ''Succeeded'' then
                (let ent' = ent\<lparr>ActionDone := True, LastUpdated := nowAlert e\<rparr>
                 in (case updateEntity (alertWriteFault e) t ent' of
                       Inl err \<Rightarrow>
                         (t, [SendMail deploymentName sumToken, UpdateEntity ent'], Inl err)
                     | Inr t' \<Rightarrow>
                         (t', [SendMail deploymentName sumToken, UpdateEntity ent'], Inr ent')))
              else (t, [SendMail deploymentName sumToken], Inl (Error ''Failed to send mail''))))
      else (t, [], Inr ent))"

text \<open>Lines 97-101.\<close>

definition usageStep ::
  "env \<Rightarrow> int \<Rightarrow> entity \<Rightarrow> table \<Rightarrow> table \<times> call list \<times> error option" where
  "usageStep e sumToken ent t =
     (if sumToken > SumToken ent then
        (let ent' = ent\<lparr>SumToken := sumToken, LastUpdated := nowUsage e\<rparr>
         in (case updateEntity (usageWriteFault e) t ent' of
               Inl err \<Rightarrow> (t, [UpdateEntity ent'], Some err)
             | Inr t' \<Rightarrow> (t', [UpdateEntity ent'], None)))
      else (t, [], None))"

text \<open>Lines 54-105: the three steps inside the outer \<^verbatim>\<open>try\<close>, whose \<^verbatim>\<open>catch\<close>
  prints the error with the deployment name and returns normally.\<close>

definition evaluateTokenUsageForAlert ::
  "env \<Rightarrow> string \<Rightarrow> int \<Rightarrow> string \<Rightarrow> table \<Rightarrow> outcome" where
  "evaluateTokenUsageForAlert e deploymentName sumToken month t =
     (let rk = rowKeyOf deploymentName month
      in (case readOrCreate e rk sumToken t of
            (t1, cs1, Inl err) \<Rightarrow>
              \<lparr>tableAfter = t1, calls = cs1, logged = [(deploymentName, err)]\<rparr>
          | (t1, cs1, Inr ent) \<Rightarrow>
              (case alertStep e deploymentName sumToken ent t1 of
                 (t2, cs2, Inl err) \<Rightarrow>
                   \<lparr>tableAfter = t2, calls = cs1 @ cs2, logged = [(deploymentName, err)]\<rparr>
               | (t2, cs2, Inr ent') \<Rightarrow>
                   (case usageStep e sumToken ent' t2 of
                      (t3, cs3, Some err) \<Rightarrow>
                        \<lparr>tableAfter = t3, calls = cs1 @ cs2 @ cs3,
                         logged = [(deploymentName, err)]\<rparr>
                    | (t3, cs3, None) \<Rightarrow>
                        \<lparr>tableAfter = t3, calls = cs1 @ cs2 @ cs3, logged = []\<rparr>))))"

subsection \<open>Observations on an outcome\<close>

definition keyOf :: "string \<Rightarrow> string \<Rightarrow> string \<times> string" where
  "keyOf deploymentName month = (DeploymentType, rowKeyOf deploymentName month)"

fun isSendMail :: "call \<Rightarrow> bool" where
  "isSendMail (SendMail _ _) = True"
| "isSendMail _ = False"

fun isWrite :: "call \<Rightarrow> bool" where
  "isWrite (CreateEntity _) = True"
| "isWrite (UpdateEntity _) = True"
| "isWrite _ = False"

definition notifierCalls :: "outcome \<Rightarrow> nat" where
  "notifierCalls out = length (filter isSendMail (calls out))"

text \<open>The stored alert flag of a key; an absent record has none set.\<close>

definition alertSent :: "table \<Rightarrow> string \<times> string \<Rightarrow> bool" where
  "alertSent t k = (case t k of None \<Rightarrow> False | Some ent \<Rightarrow> ActionDone ent)"

text \<open>The stored usage high-water mark of a key.\<close>

definition cumulativeUsage :: "table \<Rightarrow> string \<times> string \<Rightarrow> int option" where
  "cumulativeUsage t k = map_option SumToken (t k)"

text \<open>
  The local entity of a reconciliation mirrors the table when it carries the key of
  the record and the stored usage and alert flag.
\<close>

definition mirrors :: "table \<Rightarrow> string \<Rightarrow> entity \<Rightarrow> bool" where
  "mirrors t rk ent \<longleftrightarrow>
     partitionKey ent = DeploymentType \<and> rowKey ent = rk \<and>
     (\<exists>r. t (DeploymentType, rk) = Some r \<and> SumToken r = SumToken ent
        \<and> ActionDone r = ActionDone ent)"

subsection \<open>Successive reconciliations\<close>

text \<open>Reconciliations that run one after the other, each on the table the previous
  one left: the environment, deployment, sample and month of each run.\<close>

fun reconcileInSequence :: "(env \<times> string \<times> int \<times> string) list \<Rightarrow> table \<Rightarrow> table" where
  "reconcileInSequence [] t = t"
| "reconcileInSequence ((e, deploymentName, sumToken, month) # runs) t =
     reconcileInSequence runs
       (tableAfter (evaluateTokenUsageForAlert e deploymentName sumToken month t))"

subsection \<open>A reconciliation as steps between awaits\<close>

text \<open>
  \<^verbatim>\<open>evaluateTokenUsageForAlert\<close> is an async function: it suspends at each \<^verbatim>\<open>await\<close>,
  and other reconciliations, of the same invocation or of an overlapping one, may
  run in between. The place where a reconciliation is suspended, with the local
  \<^verbatim>\<open>entity\<close> as it is there: before the read of line 65, before the create of line 76,
  before the mail of line 84, before the update of line 89 (the flag already set at
  lines 87-88), before the update of line 100 (the usage already set at lines 98-99),
  or returned.
\<close>

datatype pc =
    AtRead
  | AtCreate entity
  | AtMail entity
  | AtAlertWrite entity
  | AtUsageWrite entity
  | Finished

text \<open>A reconciliation in flight: its arguments, the answers its collaborators will
  give, where it is suspended, the calls it has made and what it has printed.\<close>

record task =
  taskEnv :: env
  taskName :: string
  taskSample :: int
  taskMonth :: string
  pc :: pc
  made :: "call list"
  printed :: "(string \<times> error) list"

definition initTask :: "env \<Rightarrow> string \<Rightarrow> int \<Rightarrow> string \<Rightarrow> task" where
  "initTask e deploymentName sumToken month =
     \<lparr>taskEnv = e, taskName = deploymentName, taskSample = sumToken, taskMonth = month,
      pc = AtRead, made = [], printed = []\<rparr>"

definition called :: "task \<Rightarrow> call \<Rightarrow> task" where
  "called tk c = tk\<lparr>made := made tk @ [c]\<rparr>"

text \<open>Lines 102-104: the outer \<^verbatim>\<open>catch\<close> prints the error and the function returns.\<close>

definition caught :: "task \<Rightarrow> error \<Rightarrow> task" where
  "caught tk err = tk\<lparr>pc := Finished, printed := printed tk @ [(taskName tk, err)]\<rparr>"

text \<open>Lines 97-99, up to the await of line 100.\<close>

definition toUsage :: "task \<Rightarrow> entity \<Rightarrow> task" where
  "toUsage tk ent =
     (if taskSample tk > SumToken ent
      then tk\<lparr>pc := AtUsageWrite
             (ent\<lparr>SumToken := taskSample tk, LastUpdated := nowUsage (taskEnv tk)\<rparr>)\<rparr>
      else tk\<lparr>pc := Finished\<rparr>)"

text \<open>Line 83, up to the await of line 84.\<close>

definition toAlert :: "task \<Rightarrow> entity \<Rightarrow> task" where
  "toAlert tk ent =
     (if shouldSendAlert (Some ent) (taskSample tk) then tk\<lparr>pc := AtMail ent\<rparr>
      else toUsage tk ent)"

text \<open>
  One step: the awaited call is answered and the function runs on to its next
  \<^verbatim>\<open>await\<close> or to its return. A step of a returned reconciliation changes nothing.
\<close>

definition stepTask :: "task \<Rightarrow> table \<Rightarrow> task \<times> table" where
  "stepTask tk t =
     (let e = taskEnv tk; rk = rowKeyOf (taskName tk) (taskMonth tk)
      in (case pc tk of
            AtRead \<Rightarrow>
              (case getEntity (getFault e) t DeploymentType rk of
                 Inr ent \<Rightarrow> (toAlert (called tk (GetEntity DeploymentType rk)) ent, t)
               | Inl err \<Rightarrow>
                   (if err = RestError 404
                    then ((called tk (GetEntity DeploymentType rk))
                            \<lparr>pc := AtCreate (initialEntity rk (taskSample tk) (nowCreate e))\<rparr>, t)
                    else (caught (called tk (GetEntity DeploymentType rk)) err, t)))
          | AtCreate ent \<Rightarrow>
              (let t1 = concurrentCreate (racer e) rk t
               in (case createEntity (createFault e) t1 ent of
                     Inl err \<Rightarrow> (caught (called tk (CreateEntity ent)) err, t1)
                   | Inr t2 \<Rightarrow> (toAlert (called tk (CreateEntity ent)) ent, t2)))
          | AtMail ent \<Rightarrow>
              (case sendMail e (taskName tk) (taskSample tk) of
                 Inl err \<Rightarrow> (caught (called tk (SendMail (taskName tk) (taskSample tk))) err, t)
               | Inr result \<Rightarrow>
                   (if result = ''Succeeded''
                    then ((called tk (SendMail (taskName tk) (taskSample tk)))
                            \<lparr>pc := AtAlertWrite
                               (ent\<lparr>ActionDone := True, LastUpdated := nowAlert e\<rparr>)\<rparr>, t)
                    else (caught (called tk (SendMail (taskName tk) (taskSample tk)))
                            (Error ''Failed to send mail''), t)))
          | AtAlertWrite ent \<Rightarrow>
              (case updateEntity (alertWriteFault e) t ent of
                 Inl err \<Rightarrow> (caught (called tk (UpdateEntity ent)) err, t)
               | Inr t' \<Rightarrow> (toUsage (called tk (UpdateEntity ent)) ent, t'))
          | AtUsageWrite ent \<Rightarrow>
              (case updateEntity (usageWriteFault e) t ent of
                 Inl err \<Rightarrow> (caught (called tk (UpdateEntity ent)) err, t)
               | Inr t' \<Rightarrow> ((called tk (UpdateEntity ent))\<lparr>pc := Finished\<rparr>, t'))
          | Finished \<Rightarrow> (tk, t)))"

text \<open>A number of steps of one reconciliation with nothing in between.\<close>

fun steps :: "nat \<Rightarrow> task \<Rightarrow> table \<Rightarrow> task \<times> table" where
  "steps 0 tk t = (tk, t)"
| "steps (Suc k) tk t = (case stepTask tk t of (tk', t') \<Rightarrow> steps k tk' t')"

text \<open>The steps a reconciliation has left before it returns: at most five.\<close>

fun stepsLeft :: "pc \<Rightarrow> nat" where
  "stepsLeft AtRead = 5"
| "stepsLeft (AtCreate _) = 4"
| "stepsLeft (AtMail _) = 3"
| "stepsLeft (AtAlertWrite _) = 2"
| "stepsLeft (AtUsageWrite _) = 1"
| "stepsLeft Finished = 0"

definition taskKey :: "task \<Rightarrow> string \<times> string" where
  "taskKey tk = keyOf (taskName tk) (taskMonth tk)"

text \<open>The local entity of a suspended reconciliation carries the key of its record.\<close>

fun keyed :: "string \<Rightarrow> pc \<Rightarrow> bool" where
  "keyed rk (AtCreate ent) \<longleftrightarrow> partitionKey ent = DeploymentType \<and> rowKey ent = rk"
| "keyed rk (AtMail ent) \<longleftrightarrow> partitionKey ent = DeploymentType \<and> rowKey ent = rk"
| "keyed rk (AtAlertWrite ent) \<longleftrightarrow> partitionKey ent = DeploymentType \<and> rowKey ent = rk"
| "keyed rk (AtUsageWrite ent) \<longleftrightarrow> partitionKey ent = DeploymentType \<and> rowKey ent = rk"
| "keyed rk _ \<longleftrightarrow> True"

definition wellKeyed :: "task \<Rightarrow> bool" where
  "wellKeyed tk \<longleftrightarrow> keyed (rowKeyOf (taskName tk) (taskMonth tk)) (pc tk)"

text \<open>A reconciliation that has returned after making the calls \<open>cs\<close> and
  printing \<open>lg\<close>.\<close>

definition settled :: "task \<Rightarrow> call list \<Rightarrow> (string \<times> error) list \<Rightarrow> task" where
  "settled tk cs lg = tk\<lparr>pc := Finished, made := made tk @ cs, printed := printed tk @ lg\<rparr>"

subsection \<open>Reconciliations in flight together\<close>

text \<open>
  The reconciliations in flight at one time, of one invocation or of several that
  overlap, and the table they share. A schedule names, step by step, the
  reconciliation whose awaited call is answered next; the table service answers one
  call at a time.
\<close>

type_synonym pool = "task list \<times> table"

definition stepPool :: "nat \<Rightarrow> pool \<Rightarrow> pool" where
  "stepPool i p =
     (case p of (ts, t) \<Rightarrow>
        (if i < length ts
         then (case stepTask (ts ! i) t of (tk', t') \<Rightarrow> (ts[i := tk'], t'))
         else (ts, t)))"

definition runSchedule :: "nat list \<Rightarrow> pool \<Rightarrow> pool" where
  "runSchedule sched p = foldl (\<lambda>q i. stepPool i q) p sched"

text \<open>\<^verbatim>\<open>Promise.all\<close>: whatever steps are left are taken, so that every
  reconciliation has returned.\<close>

definition awaitAll :: "pool \<Rightarrow> pool" where
  "awaitAll p = runSchedule (concat (map (replicate 5) [0..<length (fst p)])) p"

subsection \<open>The invocation\<close>

text \<open>
  One element of the metric response's \<^verbatim>\<open>timeseries\<close>: the deployment name of
  \<^verbatim>\<open>metadatavalues[0].value\<close> and the total that line 156 computes from the data
  points. That sum is floating-point addition and is taken as given.
\<close>

record deployment =
  deploymentName :: string
  dataTotal :: int

text \<open>What the outer \<^verbatim>\<open>catch\<close> of the trigger reads from a thrown error.\<close>

record sourceError =
  respStatus :: "nat option"
  respData :: "string option"
  message :: string

record response =
  status :: nat
  body :: string

text \<open>Lines 152-159: one reconciliation is started for each deployment, the i-th with
  the environment \<open>envs i\<close>.\<close>

definition startTasks :: "(nat \<Rightarrow> env) \<Rightarrow> string \<Rightarrow> deployment list \<Rightarrow> task list" where
  "startTasks envs month timeseries =
     map (\<lambda>i. initTask (envs i) (deploymentName (timeseries ! i))
                (dataTotal (timeseries ! i)) month) [0..<length timeseries]"

text \<open>
  Lines 129-174. Acquiring the token, the metric query and the reading of its
  response either throw or yield the time series; a throw is answered with
  \<^verbatim>\<open>error.response?.status || 500\<close> and \<^verbatim>\<open>error.response?.data || error.message\<close>.
  Otherwise the reconciliations run interleaved as the schedule says, and the
  response is built when all of them have returned.
\<close>

definition httpTrigger ::
  "(nat \<Rightarrow> env) \<Rightarrow> nat list \<Rightarrow> string \<Rightarrow> sourceError + deployment list \<Rightarrow> table
     \<Rightarrow> response \<times> pool" where
  "httpTrigger envs sched month source t =
     (case source of
        Inl err \<Rightarrow>
          (\<lparr>status = (case respStatus err of
                         None \<Rightarrow> 500
                       | Some s \<Rightarrow> if s = 0 then 500 else s),
            body = (case respData err of
                      None \<Rightarrow> message err
                    | Some b \<Rightarrow> if b = [] then message err else b)\<rparr>,
           ([], t))
      | Inr timeseries \<Rightarrow>
          (\<lparr>status = 200, body = ''Success''\<rparr>,
           awaitAll (runSchedule sched (startTasks envs month timeseries, t))))"

subsection \<open>Sample inputs\<close>

text \<open>An environment in which every collaborator succeeds and nothing interferes.\<close>

definition quietEnv :: env where
  "quietEnv =
     \<lparr>getFault = None, racer = None, createFault = None,
      mailResult = Inr ''Succeeded'', alertWriteFault = None, usageWriteFault = None,
      nowCreate = ''2024-10-28T09:00:00.000Z'', nowAlert = ''2024-10-28T09:00:01.000Z'',
      nowUsage = ''2024-10-28T09:00:02.000Z''\<rparr>"

definition storedEntity :: "string \<Rightarrow> int \<Rightarrow> bool \<Rightarrow> entity" where
  "storedEntity rk n sent =
     \<lparr>partitionKey = ''DeploymentType'', rowKey = rk, SumToken = n,
      ActionDone = sent, LastUpdated = ''2024-10-27T09:00:00.000Z''\<rparr>"

definition oneRecord :: "int \<Rightarrow> bool \<Rightarrow> table" where
  "oneRecord n sent =
     [(''DeploymentType'', ''gpt4dev-2024-10'') \<mapsto> storedEntity ''gpt4dev-2024-10'' n sent]"

definition mailFailsEnv :: env where
  "mailFailsEnv = quietEnv\<lparr>mailResult := Inr ''Failed''\<rparr>"

definition mailThrowsEnv :: env where
  "mailThrowsEnv = quietEnv\<lparr>mailResult := Inl (Error ''connect ETIMEDOUT'')\<rparr>"

definition raceEnv :: env where
  "raceEnv = quietEnv\<lparr>racer := Some (1200, ''2024-10-28T08:59:59.000Z'')\<rparr>"

definition twoDeployments :: "deployment list" where
  "twoDeployments =
     [\<lparr>deploymentName = ''gpt4dev'', dataTotal = 1500\<rparr>,
      \<lparr>deploymentName = ''gpt35'', dataTotal = 1200\<rparr>]"

text \<open>Two reconciliations of the same record, started by overlapping invocations
  with the samples \<open>n\<close> and \<open>n'\<close>.\<close>

definition overlapping :: "int \<Rightarrow> int \<Rightarrow> task list" where
  "overlapping n n' =
     [initTask quietEnv ''gpt4dev'' n ''2024-10'', initTask quietEnv ''gpt4dev'' n' ''2024-10'']"

definition firstMailFails :: "nat \<Rightarrow> env" where
  "firstMailFails i = (if i = 0 then mailFailsEnv else quietEnv)"

section \<open>The steps of a reconciliation\<close>

text \<open>Each step reads and writes the table only at the key of its record, and its
  result depends on the table only through that key.\<close>

lemmas roc_defs = readOrCreate_def getEntity_def createEntity_def concurrentCreate_def
  initialEntity_def Let_def

lemma readOrCreate_frame:
  "k \<noteq> (DeploymentType, rk) \<Longrightarrow> fst (readOrCreate e rk n t) k = t k"
  by (simp add: roc_defs split: option.split sum.split prod.split)

lemma readOrCreate_local:
  "t (DeploymentType, rk) = t' (DeploymentType, rk) \<Longrightarrow>
     snd (readOrCreate e rk n t) = snd (readOrCreate e rk n t') \<and>
     fst (readOrCreate e rk n t) (DeploymentType, rk) = fst (readOrCreate e rk n t') (DeploymentType, rk)"
  by (simp add: roc_defs split: option.split sum.split prod.split)

lemma readOrCreate_no_mail: "filter isSendMail (fst (snd (readOrCreate e rk n t))) = []"
  by (simp add: roc_defs split: option.split sum.split prod.split)

lemma readOrCreate_calls:
  "UpdateEntity x \<notin> set (fst (snd (readOrCreate e rk n t)))
   \<and> SendMail d' n' \<notin> set (fst (snd (readOrCreate e rk n t)))"
  by (simp add: roc_defs split: option.split sum.split prod.split)

lemma readOrCreate_present:
  "t (DeploymentType, rk) = Some r \<Longrightarrow> fst (readOrCreate e rk n t) = t"
  by (simp add: roc_defs split: option.split sum.split prod.split)

lemma readOrCreate_absent:
  "t (DeploymentType, rk) = None \<Longrightarrow> \<not> alertSent (fst (readOrCreate e rk n t)) (DeploymentType, rk)"
  by (simp add: roc_defs alertSent_def split: option.split sum.split prod.split)

lemma readOrCreate_sent:
  "alertSent (fst (readOrCreate e rk n t)) (DeploymentType, rk) \<Longrightarrow>
     alertSent t (DeploymentType, rk)"
  by (cases "t (DeploymentType, rk)")
    (auto simp: readOrCreate_present dest: readOrCreate_absent)

lemma readOrCreate_read:
  "getFault e = None \<Longrightarrow> t (DeploymentType, rk) = Some r \<Longrightarrow>
     readOrCreate e rk n t =
       (t, [GetEntity DeploymentType rk], Inr (r\<lparr>partitionKey := DeploymentType, rowKey := rk\<rparr>))"
  by (simp add: readOrCreate_def getEntity_def)

lemma mirrors_alertSent: "mirrors t rk ent \<Longrightarrow> alertSent t (DeploymentType, rk) = ActionDone ent"
  by (auto simp: mirrors_def alertSent_def)

lemma mirrors_cumulativeUsage:
  "mirrors t rk ent \<Longrightarrow> cumulativeUsage t (DeploymentType, rk) = Some (SumToken ent)"
  by (auto simp: mirrors_def cumulativeUsage_def)

lemma mirrors_shouldSendAlert:
  "mirrors t rk ent \<Longrightarrow> t (DeploymentType, rk) = Some r \<Longrightarrow>
     shouldSendAlert (Some ent) n = shouldSendAlert (Some r) n \<and> SumToken ent = SumToken r"
  by (auto simp: mirrors_def shouldSendAlert_def)

lemma readOrCreate_mirrors:
  "readOrCreate e rk n t = (t1, cs1, Inr ent) \<Longrightarrow> mirrors t1 rk ent"
  by (auto simp: roc_defs mirrors_def split: option.splits sum.splits prod.splits if_splits)

lemmas alert_defs = alertStep_def updateEntity_def sendMail_def Let_def

lemma alertStep_frame:
  "k \<noteq> (partitionKey ent, rowKey ent) \<Longrightarrow> fst (alertStep e d n ent t) k = t k"
  by (simp add: alert_defs split: option.split sum.split)

lemma alertStep_local:
  "t (partitionKey ent, rowKey ent) = t' (partitionKey ent, rowKey ent) \<Longrightarrow>
     snd (alertStep e d n ent t) = snd (alertStep e d n ent t') \<and>
     fst (alertStep e d n ent t) (partitionKey ent, rowKey ent) =
       fst (alertStep e d n ent t') (partitionKey ent, rowKey ent)"
  by (simp add: alert_defs split: option.split sum.split)

lemma alertStep_usage:
  "mirrors t rk ent \<Longrightarrow>
     cumulativeUsage (fst (alertStep e d n ent t)) (DeploymentType, rk) =
       cumulativeUsage t (DeploymentType, rk)"
  by (auto simp: alert_defs mirrors_def cumulativeUsage_def split: option.split sum.split)

lemma alertStep_sent:
  "ActionDone ent \<Longrightarrow> alertStep e d n ent t = (t, [], Inr ent)"
  by (simp add: alertStep_def shouldSendAlert_def)

lemma alertStep_not_due:
  "\<not> shouldSendAlert (Some ent) n \<Longrightarrow> alertStep e d n ent t = (t, [], Inr ent)"
  by (simp add: alertStep_def)

lemma alertStep_origin:
  "mirrors t rk ent \<Longrightarrow> alertSent (fst (alertStep e d n ent t)) (DeploymentType, rk) \<Longrightarrow>
     ActionDone ent \<or>
     (mailResult e = Inr ''Succeeded'' \<and> SendMail d n \<in> set (fst (snd (alertStep e d n ent t))))"
  by (auto simp: alert_defs mirrors_def alertSent_def split: option.splits sum.splits if_splits)

lemma alertStep_mirrors:
  "mirrors t rk ent \<Longrightarrow> alertStep e d n ent t = (t2, cs2, Inr ent') \<Longrightarrow>
     mirrors t2 rk ent' \<and> SumToken ent' = SumToken ent \<and> (ActionDone ent \<longrightarrow> ActionDone ent')"
  by (auto simp: alert_defs mirrors_def split: option.splits sum.splits if_splits)

lemma alertStep_failed:
  "alertStep e d n ent t = (t2, cs2, Inl err) \<Longrightarrow>
     t2 = t \<and> cs2 = [SendMail d n] @ filter isWrite cs2 \<and> shouldSendAlert (Some ent) n
     \<and> (mailResult e \<noteq> Inr ''Succeeded'' \<longrightarrow> cs2 = [SendMail d n])"
  by (auto simp: alert_defs split: option.splits sum.splits if_splits)

lemma alertStep_quiet:
  "alertStep e d n ent t = (t2, cs2, Inr ent') \<Longrightarrow> mailResult e \<noteq> Inr ''Succeeded'' \<Longrightarrow>
     cs2 = [] \<and> t2 = t \<and> ent' = ent"
  by (auto simp: alert_defs split: option.splits sum.splits if_splits)

lemma alertStep_mail:
  "filter isSendMail (fst (snd (alertStep e d n ent t))) =
     (if shouldSendAlert (Some ent) n then [SendMail d n] else [])"
  by (simp add: alert_defs split: option.split sum.split)

lemmas usage_defs = usageStep_def updateEntity_def Let_def

lemma usageStep_frame:
  "k \<noteq> (partitionKey ent, rowKey ent) \<Longrightarrow> fst (usageStep e n ent t) k = t k"
  by (simp add: usage_defs split: option.split sum.split)

lemma usageStep_local:
  "t (partitionKey ent, rowKey ent) = t' (partitionKey ent, rowKey ent) \<Longrightarrow>
     snd (usageStep e n ent t) = snd (usageStep e n ent t') \<and>
     fst (usageStep e n ent t) (partitionKey ent, rowKey ent) =
       fst (usageStep e n ent t') (partitionKey ent, rowKey ent)"
  by (simp add: usage_defs split: option.split sum.split)

lemma usageStep_no_mail: "filter isSendMail (fst (snd (usageStep e n ent t))) = []"
  by (simp add: usage_defs split: option.split sum.split)

lemma usageStep_calls: "SendMail d' n' \<notin> set (fst (snd (usageStep e n ent t)))"
  by (simp add: usage_defs split: option.split sum.split)

lemma usageStep_sent:
  "mirrors t rk ent \<Longrightarrow>
     alertSent (fst (usageStep e n ent t)) (DeploymentType, rk) = ActionDone ent"
  by (auto simp: usage_defs mirrors_def alertSent_def split: option.split sum.split)

lemma usageStep_usage:
  "mirrors t rk ent \<Longrightarrow>
     (cumulativeUsage (fst (usageStep e n ent t)) (DeploymentType, rk) = Some (SumToken ent)
        \<or> cumulativeUsage (fst (usageStep e n ent t)) (DeploymentType, rk)
            = Some (max (SumToken ent) n))
     \<and> (snd (snd (usageStep e n ent t)) = None \<longrightarrow>
          cumulativeUsage (fst (usageStep e n ent t)) (DeploymentType, rk)
            = Some (max (SumToken ent) n))"
  by (auto simp: usage_defs mirrors_def cumulativeUsage_def split: option.split)

lemma usageStep_failed:
  "usageStep e n ent t = (t3, cs3, Some err) \<Longrightarrow> t3 = t"
  by (cases "usageWriteFault e") (auto simp: usage_defs split: if_splits option.splits)

lemma usageStep_not_higher:
  "n \<le> SumToken ent \<Longrightarrow> usageStep e n ent t = (t, [], None)"
  by (simp add: usageStep_def)

lemma usageStep_write_flag:
  "UpdateEntity x \<in> set (fst (snd (usageStep e n ent t))) \<Longrightarrow> ActionDone x = ActionDone ent"
  by (auto simp: usage_defs split: option.splits sum.splits if_splits)

section \<open>A whole reconciliation\<close>

text \<open>The four ways a reconciliation ends: the read or create throws, the alert step
  throws, the usage write throws, or all three steps complete.\<close>

lemma evaluate_cases:
  obtains
    (ReadFailed) t1 cs1 err where
      "readOrCreate e (rowKeyOf d m) n t = (t1, cs1, Inl err)"
      "evaluateTokenUsageForAlert e d n m t =
         \<lparr>tableAfter = t1, calls = cs1, logged = [(d, err)]\<rparr>"
  | (AlertFailed) t1 cs1 ent cs2 err where
      "readOrCreate e (rowKeyOf d m) n t = (t1, cs1, Inr ent)"
      "alertStep e d n ent t1 = (t1, cs2, Inl err)"
      "evaluateTokenUsageForAlert e d n m t =
         \<lparr>tableAfter = t1, calls = cs1 @ cs2, logged = [(d, err)]\<rparr>"
  | (UsageFailed) t1 cs1 ent t2 cs2 ent' cs3 err where
      "readOrCreate e (rowKeyOf d m) n t = (t1, cs1, Inr ent)"
      "alertStep e d n ent t1 = (t2, cs2, Inr ent')"
      "usageStep e n ent' t2 = (t2, cs3, Some err)"
      "evaluateTokenUsageForAlert e d n m t =
         \<lparr>tableAfter = t2, calls = cs1 @ cs2 @ cs3, logged = [(d, err)]\<rparr>"
  | (Completed) t1 cs1 ent t2 cs2 ent' t3 cs3 where
      "readOrCreate e (rowKeyOf d m) n t = (t1, cs1, Inr ent)"
      "alertStep e d n ent t1 = (t2, cs2, Inr ent')"
      "usageStep e n ent' t2 = (t3, cs3, None)"
      "evaluateTokenUsageForAlert e d n m t =
         \<lparr>tableAfter = t3, calls = cs1 @ cs2 @ cs3, logged = []\<rparr>"
proof -
  obtain t1 cs1 r1 where s1: "readOrCreate e (rowKeyOf d m) n t = (t1, cs1, r1)"
    using prod_cases3 by blast
  show thesis
  proof (cases r1)
    case (Inl err)
    with s1 show thesis
      by (intro ReadFailed [of t1 cs1 err]) (simp_all add: evaluateTokenUsageForAlert_def)
  next
    case r1: (Inr ent)
    obtain t2 cs2 r2 where s2: "alertStep e d n ent t1 = (t2, cs2, r2)"
      using prod_cases3 by blast
    show thesis
    proof (cases r2)
      case (Inl err)
      with s2 have "t2 = t1" by (simp add: alertStep_failed)
      with s1 r1 s2 Inl show thesis
        by (intro AlertFailed [of t1 cs1 ent cs2 err])
          (simp_all add: evaluateTokenUsageForAlert_def)
    next
      case r2: (Inr ent')
      obtain t3 cs3 r3 where s3: "usageStep e n ent' t2 = (t3, cs3, r3)"
        using prod_cases3 by blast
      show thesis
      proof (cases r3)
        case None
        with s1 r1 s2 r2 s3 show thesis
          by (intro Completed [of t1 cs1 ent t2 cs2 ent' t3 cs3])
            (simp_all add: evaluateTokenUsageForAlert_def)
      next
        case (Some err)
        with s3 have "t3 = t2" by (simp add: usageStep_failed)
        with s1 r1 s2 r2 s3 Some show thesis
          by (intro UsageFailed [of t1 cs1 ent t2 cs2 ent' cs3 err])
            (simp_all add: evaluateTokenUsageForAlert_def)
      qed
    qed
  qed
qed

lemma evaluate_frame:
  assumes "k \<noteq> keyOf d m"
  shows "tableAfter (evaluateTokenUsageForAlert e d n m t) k = t k"
proof -
  let ?rk = "rowKeyOf d m"
  from assms have k: "k \<noteq> (DeploymentType, ?rk)" by (simp add: keyOf_def)
  have r: "fst (readOrCreate e ?rk n t) k = t k"
    using k by (rule readOrCreate_frame)
  have a: "\<And>ent t1. mirrors t1 ?rk ent \<Longrightarrow> fst (alertStep e d n ent t1) k = t1 k"
    using k by (simp add: mirrors_def alertStep_frame)
  have u: "\<And>ent t1. mirrors t1 ?rk ent \<Longrightarrow> fst (usageStep e n ent t1) k = t1 k"
    using k by (simp add: mirrors_def usageStep_frame)
  show ?thesis
  proof (cases rule: evaluate_cases [where e = e and d = d and m = m and n = n and t = t])
    case (ReadFailed t1 cs1 err)
    with r show ?thesis by simp
  next
    case (AlertFailed t1 cs1 ent cs2 err)
    with r show ?thesis by simp
  next
    case (UsageFailed t1 cs1 ent t2 cs2 ent' cs3 err)
    with r a [of t1 ent] show ?thesis by (simp add: readOrCreate_mirrors)
  next
    case (Completed t1 cs1 ent t2 cs2 ent' t3 cs3)
    from Completed(1) have m1: "mirrors t1 ?rk ent" by (rule readOrCreate_mirrors)
    with Completed(2) have m2: "mirrors t2 ?rk ent'" by (simp add: alertStep_mirrors)
    from r a [OF m1] u [OF m2] Completed show ?thesis by simp
  qed
qed

lemma evaluate_local:
  assumes "t (keyOf d m) = t' (keyOf d m)"
  shows "calls (evaluateTokenUsageForAlert e d n m t) = calls (evaluateTokenUsageForAlert e d n m t')
    \<and> logged (evaluateTokenUsageForAlert e d n m t) = logged (evaluateTokenUsageForAlert e d n m t')
    \<and> tableAfter (evaluateTokenUsageForAlert e d n m t) (keyOf d m)
        = tableAfter (evaluateTokenUsageForAlert e d n m t') (keyOf d m)"
proof -
  let ?rk = "rowKeyOf d m"
  let ?k = "(DeploymentType, ?rk)"
  from assms have k: "t ?k = t' ?k" by (simp add: keyOf_def)
  obtain t1 cs1 r1 where s1: "readOrCreate e ?rk n t = (t1, cs1, r1)"
    using prod_cases3 by blast
  obtain t1' where s1': "readOrCreate e ?rk n t' = (t1', cs1, r1)" and k1: "t1 ?k = t1' ?k"
    using readOrCreate_local [where t = t and t' = t' and rk = "?rk" and e = e and n = n] k s1
    by (cases "readOrCreate e ?rk n t'") auto
  show ?thesis
  proof (cases r1)
    case (Inl err)
    with s1 s1' k1 show ?thesis
      by (simp add: evaluateTokenUsageForAlert_def keyOf_def)
  next
    case r1: (Inr ent)
    with s1 have m1: "mirrors t1 ?rk ent" by (simp add: readOrCreate_mirrors)
    then have ke: "(partitionKey ent, rowKey ent) = ?k" by (simp add: mirrors_def)
    obtain t2 cs2 r2 where s2: "alertStep e d n ent t1 = (t2, cs2, r2)"
      using prod_cases3 by blast
    obtain t2' where s2': "alertStep e d n ent t1' = (t2', cs2, r2)" and k2: "t2 ?k = t2' ?k"
      using alertStep_local [of t1 ent t1' e d n] s2 k1 ke
      by (cases "alertStep e d n ent t1'") auto
    show ?thesis
    proof (cases r2)
      case (Inl err)
      with s1 s1' r1 s2 s2' k2 show ?thesis
        by (simp add: evaluateTokenUsageForAlert_def keyOf_def)
    next
      case r2: (Inr ent')
      with s2 m1 have "mirrors t2 ?rk ent'" by (simp add: alertStep_mirrors)
      then have ke': "(partitionKey ent', rowKey ent') = ?k" by (simp add: mirrors_def)
      obtain t3 cs3 r3 where s3: "usageStep e n ent' t2 = (t3, cs3, r3)"
        using prod_cases3 by blast
      obtain t3' where s3': "usageStep e n ent' t2' = (t3', cs3, r3)" and k3: "t3 ?k = t3' ?k"
        using usageStep_local [of t2 ent' t2' e n] s3 k2 ke'
        by (cases "usageStep e n ent' t2'") auto
      from s1 s1' r1 s2 s2' r2 s3 s3' k3 show ?thesis
        by (cases r3) (simp_all add: evaluateTokenUsageForAlert_def keyOf_def)
    qed
  qed
qed

lemma evaluate_keeps_alertSent:
  assumes "alertSent t (keyOf d m)"
  shows "alertSent (tableAfter (evaluateTokenUsageForAlert e d n m t)) (keyOf d m)
    \<and> notifierCalls (evaluateTokenUsageForAlert e d n m t) = 0"
proof -
  let ?rk = "rowKeyOf d m"
  let ?k = "(DeploymentType, ?rk)"
  from assms obtain r where r: "t ?k = Some r"
    by (auto simp: alertSent_def keyOf_def split: option.splits)
  have t1: "fst (readOrCreate e ?rk n t) = t"
    using r by (rule readOrCreate_present)
  have nm1: "filter isSendMail (fst (snd (readOrCreate e ?rk n t))) = []"
    by (rule readOrCreate_no_mail)
  have sent: "alertSent t ?k" using assms by (simp add: keyOf_def)
  have step2: "alertStep e d n ent t = (t, [], Inr ent)" if "mirrors t ?rk ent" for ent
    using that sent by (simp add: mirrors_alertSent alertStep_sent)
  have step3: "alertSent (fst (usageStep e n ent t)) ?k
      \<and> filter isSendMail (fst (snd (usageStep e n ent t))) = []" if "mirrors t ?rk ent" for ent
    using that sent by (simp add: usageStep_sent usageStep_no_mail mirrors_alertSent)
  show ?thesis
  proof (cases rule: evaluate_cases [where e = e and d = d and m = m and n = n and t = t])
    case (ReadFailed t1 cs1 err)
    with t1 nm1 sent show ?thesis by (simp add: notifierCalls_def keyOf_def)
  next
    case (AlertFailed t1 cs1 ent cs2 err)
    with t1 have "mirrors t ?rk ent" by (auto dest: readOrCreate_mirrors)
    from step2 [OF this] AlertFailed t1 show ?thesis by simp
  next
    case (UsageFailed t1 cs1 ent t2 cs2 ent' cs3 err)
    with t1 have m: "mirrors t ?rk ent" by (auto dest: readOrCreate_mirrors)
    from step2 [OF m] step3 [OF m] UsageFailed t1 nm1 show ?thesis
      by (simp add: notifierCalls_def keyOf_def)
  next
    case (Completed t1 cs1 ent t2 cs2 ent' t3 cs3)
    with t1 have m: "mirrors t ?rk ent" by (auto dest: readOrCreate_mirrors)
    from step2 [OF m] step3 [OF m] Completed t1 nm1 show ?thesis
      by (simp add: notifierCalls_def keyOf_def)
  qed
qed

lemma evaluate_alertSent_any_key:
  "alertSent t k \<Longrightarrow> alertSent (tableAfter (evaluateTokenUsageForAlert e d n m t)) k"
proof (cases "k = keyOf d m")
  case True
  then show "alertSent t k \<Longrightarrow> ?thesis" by (simp add: evaluate_keeps_alertSent)
next
  case False
  then show "alertSent t k \<Longrightarrow> ?thesis" by (simp add: evaluate_frame alertSent_def)
qed

lemma evaluate_writes_keep_flag:
  assumes "alertSent t (keyOf d m)"
    and "UpdateEntity x \<in> set (calls (evaluateTokenUsageForAlert e d n m t))"
  shows "ActionDone x"
proof -
  let ?rk = "rowKeyOf d m"
  let ?k = "(DeploymentType, ?rk)"
  from assms(1) obtain r where r: "t ?k = Some r"
    by (auto simp: alertSent_def keyOf_def split: option.splits)
  have sent: "alertSent t ?k" using assms(1) by (simp add: keyOf_def)
  have t1: "fst (readOrCreate e ?rk n t) = t"
    using r by (rule readOrCreate_present)
  have c1: "UpdateEntity x \<notin> set (fst (snd (readOrCreate e ?rk n t)))"
    by (simp add: readOrCreate_calls)
  have step2: "alertStep e d n ent t = (t, [], Inr ent) \<and> ActionDone ent"
    if "mirrors t ?rk ent" for ent
    using that sent by (simp add: mirrors_alertSent alertStep_sent)
  show ?thesis
  proof (cases rule: evaluate_cases [where e = e and d = d and m = m and n = n and t = t])
    case (ReadFailed t1 cs1 err)
    with assms(2) c1 show ?thesis by simp
  next
    case (AlertFailed t1 cs1 ent cs2 err)
    with t1 have "mirrors t ?rk ent" by (auto dest: readOrCreate_mirrors)
    from step2 [OF this] AlertFailed t1 show ?thesis by simp
  next
    case (UsageFailed t1 cs1 ent t2 cs2 ent' cs3 err)
    with t1 have "mirrors t ?rk ent" by (auto dest: readOrCreate_mirrors)
    from step2 [OF this] UsageFailed t1 c1 assms(2) usageStep_write_flag [of x e n ent' t2]
    show ?thesis by auto
  next
    case (Completed t1 cs1 ent t2 cs2 ent' t3 cs3)
    with t1 have "mirrors t ?rk ent" by (auto dest: readOrCreate_mirrors)
    from step2 [OF this] Completed t1 c1 assms(2) usageStep_write_flag [of x e n ent' t2]
    show ?thesis by auto
  qed
qed

lemma filter_singleton_mem: "filter P xs = [x] \<Longrightarrow> x \<in> set xs"
  by (metis filter_is_subset list.set_intros(1) subsetD)

lemma evaluate_alert_due:
  assumes "getFault e = None" and "t (keyOf d m) = Some r" and "\<not> ActionDone r"
    and "THRESHOLD < n"
  shows "SendMail d n \<in> set (calls (evaluateTokenUsageForAlert e d n m t))"
proof -
  let ?rk = "rowKeyOf d m"
  let ?ent = "r\<lparr>partitionKey := DeploymentType, rowKey := ?rk\<rparr>"
  from assms(2) have r: "t (DeploymentType, ?rk) = Some r" by (simp add: keyOf_def)
  have rd: "readOrCreate e ?rk n t = (t, [GetEntity DeploymentType ?rk], Inr ?ent)"
    using assms(1) r by (rule readOrCreate_read)
  have "shouldSendAlert (Some ?ent) n"
    using assms(3,4) by (simp add: shouldSendAlert_def)
  then have "filter isSendMail (fst (snd (alertStep e d n ?ent t))) = [SendMail d n]"
    by (simp add: alertStep_mail)
  then have mem: "SendMail d n \<in> set (fst (snd (alertStep e d n ?ent t)))"
    by (rule filter_singleton_mem)
  show ?thesis
  proof (cases rule: evaluate_cases [where e = e and d = d and m = m and n = n and t = t])
    case (ReadFailed t1 cs1 err)
    with rd show ?thesis by simp
  next
    case (AlertFailed t1 cs1 ent cs2 err)
    with rd mem show ?thesis by simp
  next
    case (UsageFailed t1 cs1 ent t2 cs2 ent' cs3 err)
    with rd mem show ?thesis by simp
  next
    case (Completed t1 cs1 ent t2 cs2 ent' t3 cs3)
    with rd mem show ?thesis by simp
  qed
qed

lemma evaluate_alertSent_origin:
  assumes "alertSent (tableAfter (evaluateTokenUsageForAlert e d n m t)) (keyOf d m)"
  shows "alertSent t (keyOf d m) \<or>
    (mailResult e = Inr ''Succeeded''
      \<and> SendMail d n \<in> set (calls (evaluateTokenUsageForAlert e d n m t)))"
proof -
  let ?rk = "rowKeyOf d m"
  let ?k = "(DeploymentType, ?rk)"
  have s1: "alertSent (fst (readOrCreate e ?rk n t)) ?k \<Longrightarrow> alertSent t ?k"
    by (rule readOrCreate_sent)
  show ?thesis
  proof (cases rule: evaluate_cases [where e = e and d = d and m = m and n = n and t = t])
    case (ReadFailed t1 cs1 err)
    with assms s1 show ?thesis by (simp add: keyOf_def)
  next
    case (AlertFailed t1 cs1 ent cs2 err)
    with assms s1 show ?thesis by (simp add: keyOf_def)
  next
    case (UsageFailed t1 cs1 ent t2 cs2 ent' cs3 err)
    then have m1: "mirrors t1 ?rk ent" by (simp add: readOrCreate_mirrors)
    from alertStep_origin [OF m1, of e d n] mirrors_alertSent [OF m1] UsageFailed assms s1
    show ?thesis by (auto simp: keyOf_def)
  next
    case (Completed t1 cs1 ent t2 cs2 ent' t3 cs3)
    then have m1: "mirrors t1 ?rk ent" by (simp add: readOrCreate_mirrors)
    with Completed have m2: "mirrors t2 ?rk ent'" by (simp add: alertStep_mirrors)
    from usageStep_sent [OF m2, of e n] mirrors_alertSent [OF m2] Completed assms
    have "alertSent t2 ?k" by (simp add: keyOf_def)
    with alertStep_origin [OF m1, of e d n] mirrors_alertSent [OF m1] Completed s1
    show ?thesis by (auto simp: keyOf_def)
  qed
qed

lemma evaluate_mail_failed:
  assumes "SendMail d n \<in> set (calls (evaluateTokenUsageForAlert e d n m t))"
    and "mailResult e \<noteq> Inr ''Succeeded''"
  shows "(\<exists>r. tableAfter (evaluateTokenUsageForAlert e d n m t) (keyOf d m) = Some r \<and> \<not> ActionDone r)
    \<and> THRESHOLD < n
    \<and> (\<exists>err. logged (evaluateTokenUsageForAlert e d n m t) = [(d, err)])
    \<and> (\<forall>x. UpdateEntity x \<notin> set (calls (evaluateTokenUsageForAlert e d n m t)))"
proof -
  let ?rk = "rowKeyOf d m"
  have c1: "UpdateEntity x \<notin> set (fst (snd (readOrCreate e ?rk n t)))
      \<and> SendMail d n \<notin> set (fst (snd (readOrCreate e ?rk n t)))" for x
    by (rule readOrCreate_calls)
  show ?thesis
  proof (cases rule: evaluate_cases [where e = e and d = d and m = m and n = n and t = t])
    case (ReadFailed t1 cs1 err)
    with assms(1) c1 show ?thesis by simp
  next
    case (AlertFailed t1 cs1 ent cs2 err)
    then have m1: "mirrors t1 ?rk ent" by (simp add: readOrCreate_mirrors)
    from AlertFailed(2) assms(2) have f: "cs2 = [SendMail d n]" "shouldSendAlert (Some ent) n"
      by (auto dest: alertStep_failed)
    from f(2) m1 have "\<exists>r. t1 (keyOf d m) = Some r \<and> \<not> ActionDone r" "THRESHOLD < n"
      by (auto simp: mirrors_def shouldSendAlert_def keyOf_def)
    with AlertFailed f c1 show ?thesis by simp
  next
    case (UsageFailed t1 cs1 ent t2 cs2 ent' cs3 err)
    from UsageFailed(2) assms(2) have "cs2 = []" by (auto dest: alertStep_quiet)
    with UsageFailed assms(1) c1 usageStep_calls [of d n e n ent' t2] show ?thesis by simp
  next
    case (Completed t1 cs1 ent t2 cs2 ent' t3 cs3)
    from Completed(2) assms(2) have "cs2 = []" by (auto dest: alertStep_quiet)
    with Completed assms(1) c1 usageStep_calls [of d n e n ent' t2] show ?thesis by simp
  qed
qed

section \<open>Runs in sequence\<close>

lemma reconcileInSequence_append:
  "reconcileInSequence (xs @ ys) t = reconcileInSequence ys (reconcileInSequence xs t)"
  by (induction xs arbitrary: t) auto

lemma reconcileInSequence_alertSent:
  "alertSent t k \<Longrightarrow> alertSent (reconcileInSequence runs t) k"
  by (induction runs arbitrary: t) (auto simp: evaluate_alertSent_any_key)

lemma keyOf_inj: "keyOf d m = keyOf d' m \<longleftrightarrow> d = d'"
  by (simp add: keyOf_def rowKeyOf_def)

section \<open>Reconciliations as steps\<close>

lemmas task_defs = stepTask_def toAlert_def toUsage_def called_def caught_def Let_def

lemma stepTask_Finished: "pc tk = Finished \<Longrightarrow> stepTask tk t = (tk, t)"
  by (simp add: stepTask_def)

lemma steps_Finished: "pc tk = Finished \<Longrightarrow> steps k tk t = (tk, t)"
  by (induction k) (simp_all add: stepTask_Finished)

lemma stepTask_stepsLeft:
  "pc tk \<noteq> Finished \<Longrightarrow> stepsLeft (pc (fst (stepTask tk t))) < stepsLeft (pc tk)"
  by (cases "pc tk")
    (simp_all add: task_defs getEntity_def createEntity_def updateEntity_def sendMail_def
      split: option.split sum.split)

lemma steps_finish: "stepsLeft (pc tk) \<le> k \<Longrightarrow> pc (fst (steps k tk t)) = Finished"
proof (induction k arbitrary: tk t)
  case 0
  then show ?case by (cases "pc tk") simp_all
next
  case (Suc k)
  show ?case
  proof (cases "pc tk = Finished")
    case True
    show ?thesis unfolding steps_Finished [OF True] by (simp add: True)
  next
    case False
    obtain tk' t' where s: "stepTask tk t = (tk', t')" by (cases "stepTask tk t")
    from stepTask_stepsLeft [OF False, of t] s Suc.prems have "stepsLeft (pc tk') \<le> k" by simp
    from Suc.IH [OF this] s show ?thesis by simp
  qed
qed

lemma steps_add:
  "steps (a + b) tk t = steps b (fst (steps a tk t)) (snd (steps a tk t))"
  by (induction a arbitrary: tk t) (simp_all split: prod.split)

lemma steps_beyond:
  assumes "stepsLeft (pc tk) \<le> k"
  shows "steps (k + j) tk t = steps k tk t"
  using steps_finish [OF assms, of t] by (simp add: steps_add steps_Finished)

lemma stepTask_same_task:
  "taskEnv (fst (stepTask tk t)) = taskEnv tk \<and> taskName (fst (stepTask tk t)) = taskName tk
   \<and> taskSample (fst (stepTask tk t)) = taskSample tk
   \<and> taskMonth (fst (stepTask tk t)) = taskMonth tk"
  by (cases "pc tk")
    (simp_all add: task_defs split: option.split sum.split)

lemma stepTask_taskKey: "taskKey (fst (stepTask tk t)) = taskKey tk"
  by (simp add: taskKey_def stepTask_same_task)

lemma stepTask_wellKeyed: "wellKeyed tk \<Longrightarrow> wellKeyed (fst (stepTask tk t))"
  by (cases "pc tk")
    (simp_all add: wellKeyed_def task_defs getEntity_def initialEntity_def
      split: option.split sum.split)

lemma stepTask_frame:
  "wellKeyed tk \<Longrightarrow> k \<noteq> taskKey tk \<Longrightarrow> snd (stepTask tk t) k = t k"
  by (cases "pc tk")
    (simp_all add: wellKeyed_def taskKey_def keyOf_def task_defs createEntity_def
      updateEntity_def concurrentCreate_def initialEntity_def split: option.split sum.split prod.split)

lemma stepTask_local:
  "wellKeyed tk \<Longrightarrow> t (taskKey tk) = t' (taskKey tk) \<Longrightarrow>
     fst (stepTask tk t) = fst (stepTask tk t')
     \<and> snd (stepTask tk t) (taskKey tk) = snd (stepTask tk t') (taskKey tk)"
  by (cases "pc tk")
    (simp_all add: wellKeyed_def taskKey_def keyOf_def task_defs getEntity_def createEntity_def
      updateEntity_def concurrentCreate_def initialEntity_def split: option.split sum.split prod.split)

section \<open>Steps and the whole function\<close>

lemma settled_called: "settled (called tk c) cs lg = settled tk (c # cs) lg"
  by (simp add: settled_def called_def)

lemma settled_fields:
  "taskEnv (called tk c) = taskEnv tk \<and> taskName (called tk c) = taskName tk
   \<and> taskSample (called tk c) = taskSample tk \<and> taskMonth (called tk c) = taskMonth tk"
  by (simp add: called_def)

lemma caught_settled: "caught (called tk c) err = settled tk [c] [(taskName tk, err)]"
  by (simp add: caught_def called_def settled_def)

lemma finished_settled: "(called tk c)\<lparr>pc := Finished\<rparr> = settled tk [c] []"
  by (simp add: called_def settled_def)

lemma settled_pc: "settled (tk\<lparr>pc := x\<rparr>) cs lg = settled tk cs lg"
  by (simp add: settled_def)

lemma settled_Finished: "pc (settled tk cs lg) = Finished"
  by (simp add: settled_def)

text \<open>From line 97 on, the steps do what \<open>usageStep\<close> does.\<close>

lemma steps_toUsage:
  "steps (Suc k) (toUsage tk ent) t =
     (case usageStep (taskEnv tk) (taskSample tk) ent t of
        (t3, cs3, r) \<Rightarrow>
          (settled tk cs3 (case r of None \<Rightarrow> [] | Some err \<Rightarrow> [(taskName tk, err)]), t3))"
proof (cases "taskSample tk > SumToken ent")
  case True
  then show ?thesis
    by (simp add: toUsage_def usageStep_def stepTask_def Let_def called_def caught_def
        settled_def steps_Finished split: sum.split)
next
  case False
  then show ?thesis
    by (simp add: toUsage_def usageStep_def stepTask_Finished steps_Finished settled_def)
qed

text \<open>From line 83 on, the steps do what \<open>alertStep\<close> and \<open>usageStep\<close> do.\<close>

lemma steps_toAlert:
  "steps (Suc (Suc (Suc k))) (toAlert tk ent) t =
     (case alertStep (taskEnv tk) (taskName tk) (taskSample tk) ent t of
        (t2, cs2, Inl err) \<Rightarrow> (settled tk cs2 [(taskName tk, err)], t2)
      | (t2, cs2, Inr ent') \<Rightarrow>
          (case usageStep (taskEnv tk) (taskSample tk) ent' t2 of
             (t3, cs3, r) \<Rightarrow>
               (settled tk (cs2 @ cs3)
                  (case r of None \<Rightarrow> [] | Some err \<Rightarrow> [(taskName tk, err)]), t3)))"
proof (cases "shouldSendAlert (Some ent) (taskSample tk)")
  case False
  then show ?thesis
    using steps_toUsage [of "Suc (Suc k)" tk ent t]
    by (simp add: toAlert_def alertStep_def del: steps.simps)
next
  case True
  let ?c = "SendMail (taskName tk) (taskSample tk)"
  let ?ent' = "ent\<lparr>ActionDone := True, LastUpdated := nowAlert (taskEnv tk)\<rparr>"
  show ?thesis
  proof (cases "sendMail (taskEnv tk) (taskName tk) (taskSample tk) = Inr ''Succeeded''")
    case False
    with True show ?thesis
      by (simp add: toAlert_def alertStep_def stepTask_def Let_def caught_settled
          settled_pc steps_Finished settled_Finished stepTask_Finished called_def [symmetric]
          split: sum.split)
  next
    case mail: True
    have one: "stepTask (toAlert tk ent) t = ((called tk ?c)\<lparr>pc := AtAlertWrite ?ent'\<rparr>, t)"
      using True mail by (simp add: toAlert_def stepTask_def Let_def called_def)
    show ?thesis
    proof (cases "updateEntity (alertWriteFault (taskEnv tk)) t ?ent'")
      case (Inl err)
      then have two: "stepTask ((called tk ?c)\<lparr>pc := AtAlertWrite ?ent'\<rparr>) t
          = (settled tk [?c, UpdateEntity ?ent'] [(taskName tk, err)], t)"
        by (simp add: stepTask_def Let_def called_def caught_def settled_def)
      from True mail Inl one two show ?thesis
        by (simp add: alertStep_def Let_def steps_Finished settled_Finished stepTask_Finished)
    next
      case (Inr t2)
      then have two: "stepTask ((called tk ?c)\<lparr>pc := AtAlertWrite ?ent'\<rparr>) t
          = (toUsage (called (called tk ?c) (UpdateEntity ?ent')) ?ent', t2)"
        by (simp add: stepTask_def Let_def called_def toUsage_def)
      from True mail Inr one two
        steps_toUsage [of k "called (called tk ?c) (UpdateEntity ?ent')" ?ent' t2]
      show ?thesis
        by (simp add: alertStep_def Let_def settled_called settled_fields
            split: prod.split option.split)
    qed
  qed
qed

text \<open>From line 65 on, the steps do what the whole function does.\<close>

lemma steps_AtRead:
  assumes "pc tk = AtRead"
  shows "steps (Suc (Suc (Suc (Suc (Suc k))))) tk t =
     (case readOrCreate (taskEnv tk) (rowKeyOf (taskName tk) (taskMonth tk)) (taskSample tk) t of
        (t1, cs1, Inl err) \<Rightarrow> (settled tk cs1 [(taskName tk, err)], t1)
      | (t1, cs1, Inr ent) \<Rightarrow>
          (case alertStep (taskEnv tk) (taskName tk) (taskSample tk) ent t1 of
             (t2, cs2, Inl err) \<Rightarrow> (settled tk (cs1 @ cs2) [(taskName tk, err)], t2)
           | (t2, cs2, Inr ent') \<Rightarrow>
               (case usageStep (taskEnv tk) (taskSample tk) ent' t2 of
                  (t3, cs3, r) \<Rightarrow>
                    (settled tk (cs1 @ cs2 @ cs3)
                       (case r of None \<Rightarrow> [] | Some err \<Rightarrow> [(taskName tk, err)]), t3))))"
proof -
  let ?e = "taskEnv tk"
  let ?rk = "rowKeyOf (taskName tk) (taskMonth tk)"
  let ?get = "GetEntity DeploymentType ?rk"
  let ?init = "initialEntity ?rk (taskSample tk) (nowCreate ?e)"
  show ?thesis
  proof (cases "getEntity (getFault ?e) t DeploymentType ?rk")
    case (Inr ent)
    with assms have one: "stepTask tk t = (toAlert (called tk ?get) ent, t)"
      by (simp add: stepTask_def Let_def)
    from Inr have roc: "readOrCreate ?e ?rk (taskSample tk) t = (t, [?get], Inr ent)"
      by (simp add: readOrCreate_def)
    from one roc steps_toAlert [of "Suc k" "called tk ?get" ent t] show ?thesis
      by (simp add: settled_called settled_fields split: prod.split sum.split option.split)
  next
    case (Inl err)
    show ?thesis
    proof (cases "err = RestError 404")
      case False
      with Inl assms have one: "stepTask tk t = (settled tk [?get] [(taskName tk, err)], t)"
        by (simp add: stepTask_def Let_def caught_settled)
      from Inl False have roc: "readOrCreate ?e ?rk (taskSample tk) t = (t, [?get], Inl err)"
        by (simp add: readOrCreate_def)
      from one roc show ?thesis
        by (simp add: steps_Finished settled_Finished stepTask_Finished)
    next
      case True
      let ?tk1 = "(called tk ?get)\<lparr>pc := AtCreate ?init\<rparr>"
      let ?t1 = "concurrentCreate (racer ?e) ?rk t"
      from Inl True assms have one: "stepTask tk t = (?tk1, t)"
        by (simp add: stepTask_def Let_def)
      show ?thesis
      proof (cases "createEntity (createFault ?e) ?t1 ?init")
        case cf: (Inl err')
        then have two: "stepTask ?tk1 t = (settled tk [?get, CreateEntity ?init] [(taskName tk, err')], ?t1)"
          by (simp add: stepTask_def Let_def called_def caught_def settled_def)
        from Inl True cf have roc: "readOrCreate ?e ?rk (taskSample tk) t
            = (?t1, [?get, CreateEntity ?init], Inl err')"
          by (simp add: readOrCreate_def Let_def)
        from one two roc show ?thesis
          by (simp add: steps_Finished settled_Finished stepTask_Finished)
      next
        case cr: (Inr t2)
        then have two: "stepTask ?tk1 t
            = (toAlert (called (called tk ?get) (CreateEntity ?init)) ?init, t2)"
          by (simp add: stepTask_def Let_def called_def toAlert_def toUsage_def)
        from Inl True cr have roc: "readOrCreate ?e ?rk (taskSample tk) t
            = (t2, [?get, CreateEntity ?init], Inr ?init)"
          by (simp add: readOrCreate_def Let_def)
        from one two roc
          steps_toAlert [of k "called (called tk ?get) (CreateEntity ?init)" ?init t2]
        show ?thesis
          by (simp add: settled_called settled_fields split: prod.split sum.split option.split)
      qed
    qed
  qed
qed

text \<open>Five steps with nothing in between are one call of the function.\<close>

lemma steps_evaluate:
  "steps 5 (initTask e d n m) t =
     (settled (initTask e d n m) (calls (evaluateTokenUsageForAlert e d n m t))
        (logged (evaluateTokenUsageForAlert e d n m t)),
      tableAfter (evaluateTokenUsageForAlert e d n m t))"
proof -
  have five: "(5 :: nat) = Suc (Suc (Suc (Suc (Suc 0))))" by simp
  have init: "pc (initTask e d n m) = AtRead" "taskEnv (initTask e d n m) = e"
    "taskName (initTask e d n m) = d" "taskSample (initTask e d n m) = n"
    "taskMonth (initTask e d n m) = m"
    by (simp_all add: initTask_def)
  show ?thesis
    unfolding five steps_AtRead [OF init(1)] init evaluateTokenUsageForAlert_def Let_def
    by (simp split: prod.split sum.split option.split)
qed

section \<open>Reconciliations in flight together\<close>

lemma runSchedule_Cons: "runSchedule (j # sched) p = runSchedule sched (stepPool j p)"
  by (simp add: runSchedule_def)

lemma runSchedule_append: "runSchedule (a @ b) p = runSchedule b (runSchedule a p)"
  by (simp add: runSchedule_def)

lemma stepPool_length: "length (fst (stepPool j (ts, t))) = length ts"
  by (simp add: stepPool_def split: prod.split)

lemma runSchedule_length: "length (fst (runSchedule sched (ts, t))) = length ts"
proof (induction sched arbitrary: ts t)
  case Nil
  then show ?case by (simp add: runSchedule_def)
next
  case (Cons j sched)
  obtain ts' t' where s: "stepPool j (ts, t) = (ts', t')" by (cases "stepPool j (ts, t)")
  with stepPool_length [of j ts t] Cons.IH [of ts' t'] show ?case
    by (simp add: runSchedule_Cons)
qed

text \<open>What a schedule does to one reconciliation whose key no other one shares.\<close>

lemma runSchedule_one_task:
  assumes "i < length ts"
    and "\<forall>j < length ts. wellKeyed (ts ! j)"
    and "\<forall>j < length ts. j \<noteq> i \<longrightarrow> taskKey (ts ! j) \<noteq> taskKey (ts ! i)"
    and "t (taskKey (ts ! i)) = t0 (taskKey (ts ! i))"
  shows "fst (runSchedule sched (ts, t)) ! i = fst (steps (count_list sched i) (ts ! i) t0)
    \<and> snd (runSchedule sched (ts, t)) (taskKey (ts ! i))
        = snd (steps (count_list sched i) (ts ! i) t0) (taskKey (ts ! i))"
  using assms
proof (induction sched arbitrary: ts t t0)
  case Nil
  then show ?case by (simp add: runSchedule_def)
next
  case (Cons j sched)
  let ?k = "taskKey (ts ! i)"
  show ?case
  proof (cases "j < length ts")
    case False
    with Cons.prems(1) have "j \<noteq> i" by auto
    moreover from False have "stepPool j (ts, t) = (ts, t)" by (simp add: stepPool_def)
    ultimately show ?thesis using Cons.IH [where ts = ts and t = t and ?t0.0 = t0, OF Cons.prems]
      by (simp add: runSchedule_Cons)
  next
    case True
    obtain tk' t' where s: "stepTask (ts ! j) t = (tk', t')" by (cases "stepTask (ts ! j) t")
    with True have p: "stepPool j (ts, t) = (ts[j := tk'], t')" by (simp add: stepPool_def)
    from True Cons.prems(2) have wj: "wellKeyed (ts ! j)" by simp
    from s have kj: "taskKey tk' = taskKey (ts ! j)" and wk': "wellKeyed tk'"
      using stepTask_taskKey [of "ts ! j" t] stepTask_wellKeyed [OF wj, of t] by simp_all
    have len: "i < length (ts[j := tk'])" using Cons.prems(1) by simp
    have wks: "\<forall>j' < length (ts[j := tk']). wellKeyed ((ts[j := tk']) ! j')"
      using Cons.prems(2) wk' True by (auto simp: nth_list_update)
    show ?thesis
    proof (cases "j = i")
      case True
      obtain tk0 t0' where s0: "stepTask (ts ! i) t0 = (tk0, t0')"
        by (cases "stepTask (ts ! i) t0")
      from stepTask_local [where tk = "ts ! i" and t = t and t' = t0,
          OF wj [unfolded True] Cons.prems(4)] s [unfolded True] s0
      have same: "tk' = tk0" "t' ?k = t0' ?k" by simp_all
      have nth: "(ts[j := tk']) ! i = tk'" using True Cons.prems(1) by simp
      have key: "taskKey ((ts[j := tk']) ! i) = ?k" using nth kj True by simp
      have others: "\<forall>j' < length (ts[j := tk']). j' \<noteq> i \<longrightarrow>
          taskKey ((ts[j := tk']) ! j') \<noteq> taskKey ((ts[j := tk']) ! i)"
        using Cons.prems(3) True key by (simp add: nth_list_update)
      have agree: "t' (taskKey ((ts[j := tk']) ! i)) = t0' (taskKey ((ts[j := tk']) ! i))"
        using same(2) key by simp
      from Cons.IH [where ts = "ts[j := tk']" and t = t' and ?t0.0 = t0', OF len wks others agree]
        nth key same(1) s0 p True
      show ?thesis by (simp add: runSchedule_Cons)
    next
      case False
      have nth: "(ts[j := tk']) ! i = ts ! i" using False by simp
      from Cons.prems(3) \<open>j < length ts\<close> False have "?k \<noteq> taskKey (ts ! j)" by auto
      from stepTask_frame [where tk = "ts ! j" and k = "?k" and t = t, OF wj this] s
      have "t' ?k = t ?k" by simp
      with Cons.prems(4) nth have agree: "t' (taskKey ((ts[j := tk']) ! i)) = t0 (taskKey ((ts[j := tk']) ! i))"
        by simp
      have others: "\<forall>j' < length (ts[j := tk']). j' \<noteq> i \<longrightarrow>
          taskKey ((ts[j := tk']) ! j') \<noteq> taskKey ((ts[j := tk']) ! i)"
        using Cons.prems(3) kj nth \<open>j < length ts\<close> by (auto simp: nth_list_update)
      from Cons.IH [where ts = "ts[j := tk']" and t = t' and ?t0.0 = t0, OF len wks others agree]
        nth p False
      show ?thesis by (simp add: runSchedule_Cons)
    qed
  qed
qed

lemma count_list_replicate: "count_list (replicate k x) y = (if x = y then k else 0)"
  by (induction k) auto

lemma count_list_concat_replicate:
  "count_list (concat (map (replicate k) [0..<n])) i = (if i < n then k else 0)"
  by (induction n) (auto simp: count_list_replicate)

lemma awaitAll_runSchedule:
  "awaitAll (runSchedule sched (ts, t)) =
     runSchedule (sched @ concat (map (replicate 5) [0..<length ts])) (ts, t)"
  by (simp add: awaitAll_def runSchedule_append runSchedule_length)

lemma startTasks_nth:
  "i < length ds \<Longrightarrow> startTasks envs month ds ! i =
     initTask (envs i) (deploymentName (ds ! i)) (dataTotal (ds ! i)) month"
  by (simp add: startTasks_def)

lemma startTasks_length: "length (startTasks envs month ds) = length ds"
  by (simp add: startTasks_def)

lemma initTask_wellKeyed: "wellKeyed (initTask e d n m)"
  by (simp add: wellKeyed_def initTask_def)

lemma initTask_taskKey: "taskKey (initTask e d n m) = keyOf d m"
  by (simp add: taskKey_def initTask_def)

text \<open>
  A reconciliation started on a key that no other reconciliation in flight shares
  ends, under every schedule, as the function run alone on the starting table ends.
\<close>

lemma started_alone:
  assumes "i < length ds" and "distinct (map deploymentName ds)"
  shows "fst (awaitAll (runSchedule sched (startTasks envs month ds, t))) ! i
      = settled (initTask (envs i) (deploymentName (ds ! i)) (dataTotal (ds ! i)) month)
          (calls (evaluateTokenUsageForAlert (envs i) (deploymentName (ds ! i))
             (dataTotal (ds ! i)) month t))
          (logged (evaluateTokenUsageForAlert (envs i) (deploymentName (ds ! i))
             (dataTotal (ds ! i)) month t))
    \<and> snd (awaitAll (runSchedule sched (startTasks envs month ds, t)))
        (keyOf (deploymentName (ds ! i)) month)
      = tableAfter (evaluateTokenUsageForAlert (envs i) (deploymentName (ds ! i))
             (dataTotal (ds ! i)) month t) (keyOf (deploymentName (ds ! i)) month)"
proof -
  let ?ts = "startTasks envs month ds"
  let ?tk = "initTask (envs i) (deploymentName (ds ! i)) (dataTotal (ds ! i)) month"
  let ?all = "sched @ concat (map (replicate 5) [0..<length ?ts])"
  have len: "i < length ?ts" using assms(1) by (simp add: startTasks_length)
  have nth: "?ts ! i = ?tk" using assms(1) by (rule startTasks_nth)
  have wk: "\<forall>j < length ?ts. wellKeyed (?ts ! j)"
    by (simp add: startTasks_length startTasks_nth initTask_wellKeyed)
  have others: "\<forall>j < length ?ts. j \<noteq> i \<longrightarrow> taskKey (?ts ! j) \<noteq> taskKey (?ts ! i)"
  proof (intro allI impI)
    fix j assume j: "j < length ?ts" "j \<noteq> i"
    then have lj: "j < length (map deploymentName ds)"
      and li: "i < length (map deploymentName ds)"
      using assms(1) by (simp_all add: startTasks_length)
    from nth_eq_iff_index_eq [OF assms(2) lj li] j(2)
    have "map deploymentName ds ! j \<noteq> map deploymentName ds ! i" by blast
    with lj li have "deploymentName (ds ! j) \<noteq> deploymentName (ds ! i)" by simp
    with j(1) assms(1) show "taskKey (?ts ! j) \<noteq> taskKey (?ts ! i)"
      by (simp add: startTasks_length startTasks_nth initTask_taskKey keyOf_inj)
  qed
  have cnt: "count_list ?all i = 5 + count_list sched i"
    using len by (simp add: count_list_concat_replicate)
  have "stepsLeft (pc ?tk) \<le> 5" by (simp add: initTask_def)
  then have run: "steps (5 + count_list sched i) ?tk t = steps 5 ?tk t"
    by (rule steps_beyond)
  from runSchedule_one_task [where ts = ?ts and t = t and ?t0.0 = t and i = i and sched = ?all,
      OF len wk others refl]
  show ?thesis
    unfolding awaitAll_runSchedule cnt nth run steps_evaluate
    by (simp add: initTask_taskKey)
qed


text \<open>
  A reconciliation whose five steps no other step interrupts is one call of the
  function on the table as it is then, whatever else is in flight.
\<close>

lemma runSchedule_replicate:
  "i < length ts \<Longrightarrow> runSchedule (replicate k i) (ts, t) =
     (ts[i := fst (steps k (ts ! i) t)], snd (steps k (ts ! i) t))"
proof (induction k arbitrary: ts t)
  case 0
  then show ?case by (simp add: runSchedule_def)
next
  case (Suc k)
  obtain tk' t' where s: "stepTask (ts ! i) t = (tk', t')" by (cases "stepTask (ts ! i) t")
  with Suc.prems have p: "stepPool i (ts, t) = (ts[i := tk'], t')" by (simp add: stepPool_def)
  from Suc.prems have "i < length (ts[i := tk'])" by simp
  from Suc.IH [OF this, of t'] Suc.prems p s show ?case
    by (simp add: runSchedule_Cons)
qed

lemma uninterrupted_is_evaluate:
  assumes "i < length ts" and "ts ! i = initTask e d n m"
  shows "snd (runSchedule (replicate 5 i) (ts, t))
      = tableAfter (evaluateTokenUsageForAlert e d n m t)
    \<and> made (fst (runSchedule (replicate 5 i) (ts, t)) ! i)
      = calls (evaluateTokenUsageForAlert e d n m t)
    \<and> printed (fst (runSchedule (replicate 5 i) (ts, t)) ! i)
      = logged (evaluateTokenUsageForAlert e d n m t)"
proof -
  from assms have "runSchedule (replicate 5 i) (ts, t) =
      (ts[i := settled (initTask e d n m) (calls (evaluateTokenUsageForAlert e d n m t))
                 (logged (evaluateTokenUsageForAlert e d n m t))],
       tableAfter (evaluateTokenUsageForAlert e d n m t))"
    by (simp add: runSchedule_replicate steps_evaluate)
  with assms(1) show ?thesis by (simp add: settled_def initTask_def)
qed

section \<open>Unfolding on concrete inputs\<close>

lemmas ev_defs = evaluateTokenUsageForAlert_def readOrCreate_def alertStep_def usageStep_def
  getEntity_def createEntity_def updateEntity_def concurrentCreate_def sendMail_def
  initialEntity_def Let_def

lemmas sample_defs = quietEnv_def mailFailsEnv_def mailThrowsEnv_def raceEnv_def
  oneRecord_def storedEntity_def keyOf_def rowKeyOf_def
  DeploymentType_def THRESHOLD_def shouldSendAlert_def notifierCalls_def cumulativeUsage_def
  alertSent_def

section \<open>The alert policy\<close>

text \<open>
  Claim C1. \<^verbatim>\<open>shouldSendAlert\<close> returns true if and only if the new usage is strictly
  greater than \<^verbatim>\<open>THRESHOLD\<close> and the record is absent or has its alert flag unset; so it
  returns false for every usage not above the threshold, whatever the record, and
  false for every record whose alert flag is set, whatever the usage.
\<close>

theorem shouldSendAlert_iff:
  "(shouldSendAlert ent newUsage \<longleftrightarrow>
      newUsage > THRESHOLD \<and> (ent = None \<or> (\<exists>r. ent = Some r \<and> ActionDone r = False)))
   \<and> (newUsage \<le> THRESHOLD \<longrightarrow> shouldSendAlert ent newUsage = False)
   \<and> (\<forall>r. ActionDone r \<longrightarrow> shouldSendAlert (Some r) newUsage = False)"
  by (cases ent) (auto simp: shouldSendAlert_def)

theorem shouldSendAlert_iff_witness:
  "shouldSendAlert None 1001 \<and> \<not> shouldSendAlert None 1000
   \<and> shouldSendAlert (Some (storedEntity ''gpt4dev-2024-10'' 0 False)) 1001
   \<and> ActionDone (storedEntity ''gpt4dev-2024-10'' 0 True)
   \<and> \<not> shouldSendAlert (Some (storedEntity ''gpt4dev-2024-10'' 0 True)) 1001"
  using shouldSendAlert_iff [of None 1001] shouldSendAlert_iff [of None 1000]
    shouldSendAlert_iff [of "Some (storedEntity ''gpt4dev-2024-10'' 0 False)" 1001]
    shouldSendAlert_iff [of "Some (storedEntity ''gpt4dev-2024-10'' 0 True)" 1001]
  by (simp add: THRESHOLD_def storedEntity_def)

section \<open>The usage update and the notifier\<close>

text \<open>
  Claim C2, as amended. The usage update of lines 97-101 is reached only when the alert
  step has not thrown. For a record that is read with a stored usage below the new
  usage: if no alert is due, or the notifier answers \<^verbatim>\<open>Succeeded\<close> and the alert write
  succeeds, and the usage write succeeds, the stored usage becomes the new usage; if
  an alert is due and the notifier answers anything else, the reconciliation stops at
  the throw of line 91, makes no write, and leaves the table as it was.
\<close>

theorem usage_update_follows_alert_step:
  assumes "getFault e = None" and "t (keyOf d m) = Some r" and "SumToken r < n"
  shows "((\<not> shouldSendAlert (Some r) n
            \<or> (mailResult e = Inr ''Succeeded'' \<and> alertWriteFault e = None))
          \<and> usageWriteFault e = None \<longrightarrow>
          cumulativeUsage (tableAfter (evaluateTokenUsageForAlert e d n m t)) (keyOf d m) = Some n)
     \<and> (shouldSendAlert (Some r) n \<and> mailResult e \<noteq> Inr ''Succeeded'' \<longrightarrow>
          tableAfter (evaluateTokenUsageForAlert e d n m t) = t
          \<and> filter isWrite (calls (evaluateTokenUsageForAlert e d n m t)) = [])"
  using assms
  by (auto simp: ev_defs keyOf_def shouldSendAlert_def cumulativeUsage_def split: sum.splits)

text \<open>
  The claim as stated fails: the stored usage is 500, the new usage is 1500, the one
  notifier call answers \<^verbatim>\<open>Failed\<close>, and the stored usage is still 500 afterwards.
\<close>

theorem usage_update_skipped_counterexample:
  "cumulativeUsage (oneRecord 500 False) (keyOf ''gpt4dev'' ''2024-10'') = Some 500
   \<and> mailResult mailFailsEnv = Inr ''Failed''
   \<and> notifierCalls (evaluateTokenUsageForAlert mailFailsEnv
         ''gpt4dev'' 1500 ''2024-10'' (oneRecord 500 False)) = 1
   \<and> cumulativeUsage (tableAfter (evaluateTokenUsageForAlert mailFailsEnv
         ''gpt4dev'' 1500 ''2024-10'' (oneRecord 500 False))) (keyOf ''gpt4dev'' ''2024-10'')
       = Some 500"
  by (simp add: ev_defs sample_defs)

theorem usage_update_follows_alert_step_witness:
  "getFault quietEnv = None \<and> getFault mailFailsEnv = None
   \<and> oneRecord 500 False (keyOf ''gpt4dev'' ''2024-10'')
       = Some (storedEntity ''gpt4dev-2024-10'' 500 False)
   \<and> SumToken (storedEntity ''gpt4dev-2024-10'' 500 False) < 1500
   \<and> mailResult quietEnv = Inr ''Succeeded'' \<and> alertWriteFault quietEnv = None
   \<and> usageWriteFault quietEnv = None
   \<and> cumulativeUsage (tableAfter (evaluateTokenUsageForAlert quietEnv
         ''gpt4dev'' 1500 ''2024-10'' (oneRecord 500 False))) (keyOf ''gpt4dev'' ''2024-10'')
       = Some 1500
   \<and> shouldSendAlert (Some (storedEntity ''gpt4dev-2024-10'' 500 False)) 1500
   \<and> mailResult mailFailsEnv \<noteq> Inr ''Succeeded''
   \<and> tableAfter (evaluateTokenUsageForAlert mailFailsEnv
         ''gpt4dev'' 1500 ''2024-10'' (oneRecord 500 False)) = oneRecord 500 False"
proof -
  have h1: "getFault quietEnv = None" and h1': "getFault mailFailsEnv = None"
    by (simp_all add: sample_defs)
  have h2: "oneRecord 500 False (keyOf ''gpt4dev'' ''2024-10'')
      = Some (storedEntity ''gpt4dev-2024-10'' 500 False)"
    by (simp add: sample_defs)
  have h3: "SumToken (storedEntity ''gpt4dev-2024-10'' 500 False) < 1500"
    by (simp add: sample_defs)
  have a1: "mailResult quietEnv = Inr ''Succeeded'' \<and> alertWriteFault quietEnv = None
      \<and> usageWriteFault quietEnv = None"
    by (simp add: sample_defs)
  have a2: "shouldSendAlert (Some (storedEntity ''gpt4dev-2024-10'' 500 False)) 1500
      \<and> mailResult mailFailsEnv \<noteq> Inr ''Succeeded''"
    by (simp add: sample_defs)
  from usage_update_follows_alert_step [where e = quietEnv and t = "oneRecord 500 False"
      and d = "''gpt4dev''" and m = "''2024-10''" and n = 1500
      and r = "storedEntity ''gpt4dev-2024-10'' 500 False", OF h1 h2 h3] a1
  have c1: "cumulativeUsage (tableAfter (evaluateTokenUsageForAlert quietEnv
         ''gpt4dev'' 1500 ''2024-10'' (oneRecord 500 False))) (keyOf ''gpt4dev'' ''2024-10'')
       = Some 1500"
    by blast
  from usage_update_follows_alert_step [where e = mailFailsEnv and t = "oneRecord 500 False"
      and d = "''gpt4dev''" and m = "''2024-10''" and n = 1500
      and r = "storedEntity ''gpt4dev-2024-10'' 500 False", OF h1' h2 h3] a2
  have c2: "tableAfter (evaluateTokenUsageForAlert mailFailsEnv
         ''gpt4dev'' 1500 ''2024-10'' (oneRecord 500 False)) = oneRecord 500 False"
    by blast
  from h1 h1' h2 h3 a1 c1 a2 c2 show ?thesis by blast
qed

section \<open>A create that meets a record created concurrently\<close>

text \<open>
  Claim C3, as amended. When the read finds no record and a concurrent reconciliation
  creates the record before this one's create, the create answers 409 and the
  reconciliation stops there: it reads the record no second time, calls no notifier,
  writes nothing, prints the 409 with the deployment name, and leaves in the table
  the record the concurrent reconciliation created.
\<close>

theorem create_conflict_aborts:
  assumes "getFault e = None" and "t (keyOf d m) = None"
    and "racer e = Some (n', now')" and "createFault e = None"
  shows "evaluateTokenUsageForAlert e d n m t =
     \<lparr>tableAfter = t(keyOf d m \<mapsto> initialEntity (rowKeyOf d m) n' now'),
      calls = [GetEntity DeploymentType (rowKeyOf d m),
               CreateEntity (initialEntity (rowKeyOf d m) n (nowCreate e))],
      logged = [(d, RestError 409)]\<rparr>"
  using assms by (simp add: ev_defs keyOf_def)

text \<open>
  The claim as stated fails: with no record stored and a concurrent create of a record
  with usage 1200, the reconciliation of the sample 1500 prints the 409 as its error
  and makes exactly one read and one create, although the policy asks for an alert on
  the record now stored.
\<close>

theorem create_conflict_counterexample:
  "logged (evaluateTokenUsageForAlert raceEnv ''gpt4dev'' 1500 ''2024-10'' Map.empty)
     = [(''gpt4dev'', RestError 409)]
   \<and> calls (evaluateTokenUsageForAlert raceEnv ''gpt4dev'' 1500 ''2024-10'' Map.empty)
     = [GetEntity ''DeploymentType'' ''gpt4dev-2024-10'',
        CreateEntity (initialEntity ''gpt4dev-2024-10'' 1500 ''2024-10-28T09:00:00.000Z'')]
   \<and> shouldSendAlert
        (tableAfter (evaluateTokenUsageForAlert raceEnv ''gpt4dev'' 1500 ''2024-10'' Map.empty)
           (keyOf ''gpt4dev'' ''2024-10'')) 1500"
  by (simp add: ev_defs sample_defs)

theorem create_conflict_aborts_witness:
  "getFault raceEnv = None \<and> oneRecord 500 False (keyOf ''gpt35'' ''2024-10'') = None
   \<and> racer raceEnv = Some (1200, ''2024-10-28T08:59:59.000Z'') \<and> createFault raceEnv = None
   \<and> evaluateTokenUsageForAlert raceEnv ''gpt35'' 1500 ''2024-10'' (oneRecord 500 False) =
     \<lparr>tableAfter = (oneRecord 500 False)(keyOf ''gpt35'' ''2024-10'' \<mapsto>
        initialEntity (rowKeyOf ''gpt35'' ''2024-10'') 1200 ''2024-10-28T08:59:59.000Z''),
      calls = [GetEntity DeploymentType (rowKeyOf ''gpt35'' ''2024-10''),
               CreateEntity (initialEntity (rowKeyOf ''gpt35'' ''2024-10'') 1500
                 (nowCreate raceEnv))],
      logged = [(''gpt35'', RestError 409)]\<rparr>"
proof -
  have h1: "getFault raceEnv = None"
    and h3: "racer raceEnv = Some (1200, ''2024-10-28T08:59:59.000Z'')"
    and h4: "createFault raceEnv = None"
    and h2: "oneRecord 500 False (keyOf ''gpt35'' ''2024-10'') = None"
    by (simp_all add: sample_defs)
  from h1 h2 h3 h4 create_conflict_aborts [where e = raceEnv and t = "oneRecord 500 False"
      and d = "''gpt35''" and m = "''2024-10''" and n = 1500 and n' = 1200
      and now' = "''2024-10-28T08:59:59.000Z''", OF h1 h2 h3 h4]
  show ?thesis by blast
qed

section \<open>The alert flag and the notifier's answer\<close>

text \<open>
  Claim C4. A reconciliation leaves the alert flag of its record set only if the flag
  was set before or the notifier was called and answered \<^verbatim>\<open>Succeeded\<close>. When the notifier was called
  and answered anything else, the flag is unset afterwards, no update was sent to the
  table, the reconciliation printed one error for its deployment, and the next
  reconciliation of the same sample that reads the record calls the notifier again.
\<close>

theorem alert_flag_only_after_success:
  "(alertSent (tableAfter (evaluateTokenUsageForAlert e d n m t)) (keyOf d m) \<longrightarrow>
      alertSent t (keyOf d m) \<or>
      (mailResult e = Inr ''Succeeded''
        \<and> SendMail d n \<in> set (calls (evaluateTokenUsageForAlert e d n m t))))
   \<and> (SendMail d n \<in> set (calls (evaluateTokenUsageForAlert e d n m t))
        \<and> mailResult e \<noteq> Inr ''Succeeded'' \<longrightarrow>
       \<not> alertSent (tableAfter (evaluateTokenUsageForAlert e d n m t)) (keyOf d m)
       \<and> (\<exists>err. logged (evaluateTokenUsageForAlert e d n m t) = [(d, err)])
       \<and> (\<forall>x. UpdateEntity x \<notin> set (calls (evaluateTokenUsageForAlert e d n m t)))
       \<and> (\<forall>e'. getFault e' = None \<longrightarrow>
            SendMail d n \<in> set (calls (evaluateTokenUsageForAlert e' d n m
              (tableAfter (evaluateTokenUsageForAlert e d n m t))))))"
proof (intro conjI impI)
  assume "alertSent (tableAfter (evaluateTokenUsageForAlert e d n m t)) (keyOf d m)"
  then show "alertSent t (keyOf d m) \<or>
      (mailResult e = Inr ''Succeeded''
        \<and> SendMail d n \<in> set (calls (evaluateTokenUsageForAlert e d n m t)))"
    by (rule evaluate_alertSent_origin)
next
  assume a: "SendMail d n \<in> set (calls (evaluateTokenUsageForAlert e d n m t))
    \<and> mailResult e \<noteq> Inr ''Succeeded''"
  then have a1: "SendMail d n \<in> set (calls (evaluateTokenUsageForAlert e d n m t))"
    and a2: "mailResult e \<noteq> Inr ''Succeeded''" by simp_all
  note f = evaluate_mail_failed [OF a1 a2]
  then show "\<not> alertSent (tableAfter (evaluateTokenUsageForAlert e d n m t)) (keyOf d m)"
    by (auto simp: alertSent_def)
  from f show "\<exists>err. logged (evaluateTokenUsageForAlert e d n m t) = [(d, err)]" by simp
  from f show "\<forall>x. UpdateEntity x \<notin> set (calls (evaluateTokenUsageForAlert e d n m t))" by simp
  from f show "\<forall>e'. getFault e' = None \<longrightarrow>
            SendMail d n \<in> set (calls (evaluateTokenUsageForAlert e' d n m
              (tableAfter (evaluateTokenUsageForAlert e d n m t))))"
    by (auto intro: evaluate_alert_due)
qed

theorem alert_flag_only_after_success_witness:
  "alertSent (tableAfter (evaluateTokenUsageForAlert quietEnv ''gpt4dev'' 1500 ''2024-10''
      (oneRecord 500 False))) (keyOf ''gpt4dev'' ''2024-10'')
   \<and> mailResult quietEnv = Inr ''Succeeded''
   \<and> SendMail ''gpt4dev'' 1500 \<in> set (calls (evaluateTokenUsageForAlert mailFailsEnv
        ''gpt4dev'' 1500 ''2024-10'' (oneRecord 500 False)))
   \<and> mailResult mailFailsEnv \<noteq> Inr ''Succeeded''
   \<and> \<not> alertSent (tableAfter (evaluateTokenUsageForAlert mailFailsEnv ''gpt4dev'' 1500
        ''2024-10'' (oneRecord 500 False))) (keyOf ''gpt4dev'' ''2024-10'')
   \<and> getFault quietEnv = None
   \<and> SendMail ''gpt4dev'' 1500 \<in> set (calls (evaluateTokenUsageForAlert quietEnv
        ''gpt4dev'' 1500 ''2024-10''
        (tableAfter (evaluateTokenUsageForAlert mailFailsEnv ''gpt4dev'' 1500 ''2024-10''
           (oneRecord 500 False)))))"
proof -
  have sent: "alertSent (tableAfter (evaluateTokenUsageForAlert quietEnv ''gpt4dev'' 1500
      ''2024-10'' (oneRecord 500 False))) (keyOf ''gpt4dev'' ''2024-10'')"
    by (simp add: ev_defs sample_defs)
  have unset: "\<not> alertSent (oneRecord 500 False) (keyOf ''gpt4dev'' ''2024-10'')"
    by (simp add: sample_defs)
  have mail: "SendMail ''gpt4dev'' 1500 \<in> set (calls (evaluateTokenUsageForAlert mailFailsEnv
        ''gpt4dev'' 1500 ''2024-10'' (oneRecord 500 False)))"
    by (simp add: ev_defs sample_defs)
  have failed: "mailResult mailFailsEnv \<noteq> Inr ''Succeeded''"
    and quiet: "getFault quietEnv = None"
    by (simp_all add: sample_defs)
  from alert_flag_only_after_success [where e = quietEnv and d = "''gpt4dev''" and n = 1500
      and m = "''2024-10''" and t = "oneRecord 500 False"] sent unset
  have c1: "mailResult quietEnv = Inr ''Succeeded''" by blast
  from alert_flag_only_after_success [where e = mailFailsEnv and d = "''gpt4dev''"
      and n = 1500 and m = "''2024-10''" and t = "oneRecord 500 False"] mail failed quiet
  have c2: "\<not> alertSent (tableAfter (evaluateTokenUsageForAlert mailFailsEnv ''gpt4dev'' 1500
        ''2024-10'' (oneRecord 500 False))) (keyOf ''gpt4dev'' ''2024-10'')"
    and c3: "SendMail ''gpt4dev'' 1500 \<in> set (calls (evaluateTokenUsageForAlert quietEnv
        ''gpt4dev'' 1500 ''2024-10''
        (tableAfter (evaluateTokenUsageForAlert mailFailsEnv ''gpt4dev'' 1500 ''2024-10''
           (oneRecord 500 False)))))"
    by blast+
  from sent c1 mail failed c2 quiet c3 show ?thesis by blast
qed

section \<open>The usage high-water mark\<close>

text \<open>
  Claim C5, as amended. For every reconciliation of an existing record during which
  no other reconciliation writes that record (the function runs from its read to its
  last write with nothing in between, as \<open>uninterrupted_is_evaluate\<close> says of
  \<^verbatim>\<open>evaluateTokenUsageForAlert\<close>), the stored usage afterwards is the previous value or
  the maximum of the previous value and the new usage, so it is not lower than before;
  it is that maximum whenever the reconciliation ends without printing an error.
\<close>

theorem cumulativeUsage_after_reconciliation:
  assumes "cumulativeUsage t (keyOf d m) = Some u"
  shows "(cumulativeUsage (tableAfter (evaluateTokenUsageForAlert e d n m t)) (keyOf d m) = Some u
        \<or> cumulativeUsage (tableAfter (evaluateTokenUsageForAlert e d n m t)) (keyOf d m)
            = Some (max u n))
    \<and> (\<exists>u'. cumulativeUsage (tableAfter (evaluateTokenUsageForAlert e d n m t)) (keyOf d m) = Some u'
          \<and> u \<le> u')
    \<and> (logged (evaluateTokenUsageForAlert e d n m t) = [] \<longrightarrow>
         cumulativeUsage (tableAfter (evaluateTokenUsageForAlert e d n m t)) (keyOf d m)
           = Some (max u n))"
proof -
  let ?rk = "rowKeyOf d m"
  let ?k = "(DeploymentType, ?rk)"
  from assms obtain r where r: "t ?k = Some r" and u: "cumulativeUsage t ?k = Some u"
    by (auto simp: cumulativeUsage_def keyOf_def)
  have t1: "fst (readOrCreate e ?rk n t) = t"
    using r by (rule readOrCreate_present)
  show ?thesis
  proof (cases rule: evaluate_cases [where e = e and d = d and m = m and n = n and t = t])
    case (ReadFailed t1 cs1 err)
    with t1 u show ?thesis by (simp add: keyOf_def)
  next
    case (AlertFailed t1 cs1 ent cs2 err)
    with t1 u show ?thesis by (simp add: keyOf_def)
  next
    case (UsageFailed t1 cs1 ent t2 cs2 ent' cs3 err)
    with t1 have "mirrors t ?rk ent" by (auto dest: readOrCreate_mirrors)
    from alertStep_usage [OF this, of e d n] UsageFailed t1 u show ?thesis
      by (simp add: keyOf_def)
  next
    case (Completed t1 cs1 ent t2 cs2 ent' t3 cs3)
    with t1 have m1: "mirrors t ?rk ent" and tt: "t1 = t" by (auto dest: readOrCreate_mirrors)
    from m1 u have ue: "SumToken ent = u" by (simp add: mirrors_cumulativeUsage)
    from m1 Completed tt have m2: "mirrors t2 ?rk ent'" and ue': "SumToken ent' = SumToken ent"
      by (simp_all add: alertStep_mirrors)
    from usageStep_usage [OF m2, of e n] Completed ue ue' show ?thesis
      by (simp add: keyOf_def)
  qed
qed

text \<open>
  The claim as stated fails in two ways. With the stored usage 900, the new usage 2000
  and a notifier call that throws, the stored usage afterwards is 900, not the maximum
  2000. And when two reconciliations of the same record overlap, with the samples 1500
  and 1800 and the stored usage 500: both read the record, the second completes and
  leaves the usage 1800, then the first sends its alert update with the usage 500 it
  read, and its usage update leaves 1500; the stored usage has gone from 1800 to 500
  and ends at 1500.
\<close>

theorem cumulativeUsage_max_counterexample:
  "cumulativeUsage (oneRecord 900 False) (keyOf ''gpt4dev'' ''2024-10'') = Some 900
   \<and> cumulativeUsage (tableAfter (evaluateTokenUsageForAlert mailThrowsEnv
         ''gpt4dev'' 2000 ''2024-10'' (oneRecord 900 False))) (keyOf ''gpt4dev'' ''2024-10'')
       = Some 900
   \<and> max 900 2000 = (2000 :: int)
   \<and> cumulativeUsage (snd (runSchedule [0, 1, 1, 1, 1]
         (overlapping 1500 1800, oneRecord 500 False))) (keyOf ''gpt4dev'' ''2024-10'')
       = Some 1800
   \<and> cumulativeUsage (snd (runSchedule [0, 1, 1, 1, 1, 0, 0]
         (overlapping 1500 1800, oneRecord 500 False))) (keyOf ''gpt4dev'' ''2024-10'')
       = Some 500
   \<and> cumulativeUsage (snd (runSchedule [0, 1, 1, 1, 1, 0, 0, 0]
         (overlapping 1500 1800, oneRecord 500 False))) (keyOf ''gpt4dev'' ''2024-10'')
       = Some 1500"
  by code_simp

theorem cumulativeUsage_after_reconciliation_witness:
  "cumulativeUsage (oneRecord 500 False) (keyOf ''gpt4dev'' ''2024-10'') = Some 500
   \<and> logged (evaluateTokenUsageForAlert quietEnv ''gpt4dev'' 800 ''2024-10''
        (oneRecord 500 False)) = []
   \<and> cumulativeUsage (tableAfter (evaluateTokenUsageForAlert quietEnv
         ''gpt4dev'' 800 ''2024-10'' (oneRecord 500 False))) (keyOf ''gpt4dev'' ''2024-10'')
       = Some (max 500 800)"
proof -
  have h: "cumulativeUsage (oneRecord 500 False) (keyOf ''gpt4dev'' ''2024-10'') = Some 500"
    by (simp add: sample_defs)
  have l: "logged (evaluateTokenUsageForAlert quietEnv ''gpt4dev'' 800 ''2024-10''
        (oneRecord 500 False)) = []"
    by (simp add: ev_defs sample_defs)
  from cumulativeUsage_after_reconciliation [where e = quietEnv and n = 800, OF h] l
  have "cumulativeUsage (tableAfter (evaluateTokenUsageForAlert quietEnv
         ''gpt4dev'' 800 ''2024-10'' (oneRecord 500 False))) (keyOf ''gpt4dev'' ''2024-10'')
       = Some (max 500 800)"
    by blast
  with h l show ?thesis by blast
qed

section \<open>No second alert\<close>

text \<open>
  Claim C6. When a reconciliation has called the notifier and left the alert flag of
  its record set, a second reconciliation of the same deployment, month and sample,
  run on the table the first one left, calls the notifier not at all and leaves the
  flag set, whatever its collaborators answer.
\<close>

theorem second_run_sends_no_alert:
  assumes "SendMail d n \<in> set (calls (evaluateTokenUsageForAlert e1 d n m t))"
    and "alertSent (tableAfter (evaluateTokenUsageForAlert e1 d n m t)) (keyOf d m)"
  shows "notifierCalls (evaluateTokenUsageForAlert e2 d n m
            (tableAfter (evaluateTokenUsageForAlert e1 d n m t))) = 0
    \<and> alertSent (tableAfter (evaluateTokenUsageForAlert e2 d n m
            (tableAfter (evaluateTokenUsageForAlert e1 d n m t)))) (keyOf d m)"
  using evaluate_keeps_alertSent [OF assms(2), of e2 n] by simp

theorem second_run_sends_no_alert_witness:
  "SendMail ''gpt4dev'' 1500 \<in> set (calls (evaluateTokenUsageForAlert quietEnv
      ''gpt4dev'' 1500 ''2024-10'' Map.empty))
   \<and> alertSent (tableAfter (evaluateTokenUsageForAlert quietEnv ''gpt4dev'' 1500 ''2024-10''
        Map.empty)) (keyOf ''gpt4dev'' ''2024-10'')
   \<and> notifierCalls (evaluateTokenUsageForAlert quietEnv ''gpt4dev'' 1500 ''2024-10''
        (tableAfter (evaluateTokenUsageForAlert quietEnv ''gpt4dev'' 1500 ''2024-10''
           Map.empty))) = 0
   \<and> alertSent (tableAfter (evaluateTokenUsageForAlert quietEnv ''gpt4dev'' 1500 ''2024-10''
        (tableAfter (evaluateTokenUsageForAlert quietEnv ''gpt4dev'' 1500 ''2024-10''
           Map.empty)))) (keyOf ''gpt4dev'' ''2024-10'')"
proof -
  have h1: "SendMail ''gpt4dev'' 1500 \<in> set (calls (evaluateTokenUsageForAlert quietEnv
      ''gpt4dev'' 1500 ''2024-10'' Map.empty))"
    by (simp add: ev_defs sample_defs)
  have h2: "alertSent (tableAfter (evaluateTokenUsageForAlert quietEnv ''gpt4dev'' 1500
      ''2024-10'' Map.empty)) (keyOf ''gpt4dev'' ''2024-10'')"
    by (simp add: ev_defs sample_defs)
  from h1 h2 second_run_sends_no_alert [where ?e2.0 = quietEnv, OF h1 h2]
  show ?thesis by blast
qed

section \<open>The alert flag is never reset\<close>

text \<open>
  Claim C7, as amended. Over reconciliations that run one after another, none
  overlapping another, once the alert flag of a record is set it stays set after every
  further reconciliation, of any deployment and with any answers of the collaborators;
  so the flag changes from unset to set at most once. A reconciliation of a record
  whose flag is set sends the table only updates that carry the flag set. (A
  reconciliation of a record whose flag is unset may send the flag unset again with
  its usage update, which leaves the flag as it was.)
\<close>

theorem alertSent_never_reset:
  "(alertSent (reconcileInSequence runs t) k \<longrightarrow>
      alertSent (reconcileInSequence (runs @ later) t) k)
   \<and> (alertSent t (keyOf d m) \<longrightarrow>
        (\<forall>x. UpdateEntity x \<in> set (calls (evaluateTokenUsageForAlert e d n m t)) \<longrightarrow>
           ActionDone x))"
  by (auto simp: reconcileInSequence_append reconcileInSequence_alertSent
      dest: evaluate_writes_keep_flag)

text \<open>
  The claim as stated fails in two ways. A reconciliation of the existing record with
  usage 500 and the flag unset, for the sample 800, sends an update of that record
  that carries the flag unset: an operation does write the unset flag to an existing
  record. And when two reconciliations of that record overlap, with the samples 800
  and 1500: both read the record, the second completes and leaves the flag set, then
  the usage update of the first, which carries the flag as it was read, resets it.
\<close>

theorem alertSent_reset_counterexample:
  "oneRecord 500 False (keyOf ''gpt4dev'' ''2024-10'')
       = Some (storedEntity ''gpt4dev-2024-10'' 500 False)
   \<and> UpdateEntity ((storedEntity ''gpt4dev-2024-10'' 800 False)
          \<lparr>LastUpdated := nowUsage quietEnv\<rparr>)
        \<in> set (calls (evaluateTokenUsageForAlert quietEnv ''gpt4dev'' 800 ''2024-10''
             (oneRecord 500 False)))
   \<and> ActionDone ((storedEntity ''gpt4dev-2024-10'' 800 False)
          \<lparr>LastUpdated := nowUsage quietEnv\<rparr>) = False
   \<and> alertSent (snd (runSchedule [0, 1, 1, 1, 1]
         (overlapping 800 1500, oneRecord 500 False))) (keyOf ''gpt4dev'' ''2024-10'')
   \<and> \<not> alertSent (snd (runSchedule [0, 1, 1, 1, 1, 0]
         (overlapping 800 1500, oneRecord 500 False))) (keyOf ''gpt4dev'' ''2024-10'')"
  by code_simp

theorem alertSent_never_reset_witness:
  "alertSent (reconcileInSequence [(quietEnv, ''gpt4dev'', 1500, ''2024-10'')] Map.empty)
      (keyOf ''gpt4dev'' ''2024-10'')
   \<and> alertSent (reconcileInSequence ([(quietEnv, ''gpt4dev'', 1500, ''2024-10'')]
        @ [(mailFailsEnv, ''gpt4dev'', 1800, ''2024-10''), (quietEnv, ''gpt4dev'', 400, ''2024-10'')])
        Map.empty) (keyOf ''gpt4dev'' ''2024-10'')
   \<and> alertSent (oneRecord 1500 True) (keyOf ''gpt4dev'' ''2024-10'')
   \<and> UpdateEntity ((storedEntity ''gpt4dev-2024-10'' 1800 True)\<lparr>LastUpdated := nowUsage quietEnv\<rparr>)
        \<in> set (calls (evaluateTokenUsageForAlert quietEnv ''gpt4dev'' 1800 ''2024-10''
             (oneRecord 1500 True)))
   \<and> ActionDone ((storedEntity ''gpt4dev-2024-10'' 1800 True)\<lparr>LastUpdated := nowUsage quietEnv\<rparr>)"
proof -
  have h1: "alertSent (reconcileInSequence [(quietEnv, ''gpt4dev'', 1500, ''2024-10'')] Map.empty)
      (keyOf ''gpt4dev'' ''2024-10'')"
    by (simp add: ev_defs sample_defs)
  have h2: "alertSent (oneRecord 1500 True) (keyOf ''gpt4dev'' ''2024-10'')"
    by (simp add: sample_defs)
  have h3: "UpdateEntity ((storedEntity ''gpt4dev-2024-10'' 1800 True)\<lparr>LastUpdated := nowUsage quietEnv\<rparr>)
        \<in> set (calls (evaluateTokenUsageForAlert quietEnv ''gpt4dev'' 1800 ''2024-10''
             (oneRecord 1500 True)))"
    by (simp add: ev_defs sample_defs)
  from alertSent_never_reset [where runs = "[(quietEnv, ''gpt4dev'', 1500, ''2024-10'')]"
      and t = Map.empty and k = "keyOf ''gpt4dev'' ''2024-10''"
      and later = "[(mailFailsEnv, ''gpt4dev'', 1800, ''2024-10''),
        (quietEnv, ''gpt4dev'', 400, ''2024-10'')]"]
    h1
  have c1: "alertSent (reconcileInSequence ([(quietEnv, ''gpt4dev'', 1500, ''2024-10'')]
        @ [(mailFailsEnv, ''gpt4dev'', 1800, ''2024-10''), (quietEnv, ''gpt4dev'', 400, ''2024-10'')])
        Map.empty) (keyOf ''gpt4dev'' ''2024-10'')"
    by blast
  from alertSent_never_reset [where t = "oneRecord 1500 True" and d = "''gpt4dev''"
      and m = "''2024-10''" and e = quietEnv and n = 1800] h2 h3
  have c2: "ActionDone ((storedEntity ''gpt4dev-2024-10'' 1800 True)\<lparr>LastUpdated := nowUsage quietEnv\<rparr>)"
    by blast
  from h1 c1 h2 h3 c2 show ?thesis by blast
qed

section \<open>Isolation of the deployments of one invocation\<close>

text \<open>
  Claim C8. When the metric query has answered, the invocation answers status 200 with
  the body \<^verbatim>\<open>Success\<close>, whatever happens in the reconciliations. For deployments with
  distinct names and every schedule of their steps, each reconciliation returns,
  having made the calls, printed the errors and left the record that the function
  would if it ran alone on the table the invocation started with: a failure of one
  neither stops nor changes another.
\<close>

theorem httpTrigger_isolates_deployments:
  assumes "distinct (map deploymentName ds)"
  shows "fst (httpTrigger envs sched month (Inr ds) t) = \<lparr>status = 200, body = ''Success''\<rparr>
    \<and> length (fst (snd (httpTrigger envs sched month (Inr ds) t))) = length ds
    \<and> (\<forall>i < length ds.
         pc (fst (snd (httpTrigger envs sched month (Inr ds) t)) ! i) = Finished
         \<and> made (fst (snd (httpTrigger envs sched month (Inr ds) t)) ! i)
             = calls (evaluateTokenUsageForAlert (envs i) (deploymentName (ds ! i))
                 (dataTotal (ds ! i)) month t)
         \<and> printed (fst (snd (httpTrigger envs sched month (Inr ds) t)) ! i)
             = logged (evaluateTokenUsageForAlert (envs i) (deploymentName (ds ! i))
                 (dataTotal (ds ! i)) month t)
         \<and> snd (snd (httpTrigger envs sched month (Inr ds) t))
              (keyOf (deploymentName (ds ! i)) month)
             = tableAfter (evaluateTokenUsageForAlert (envs i) (deploymentName (ds ! i))
                 (dataTotal (ds ! i)) month t) (keyOf (deploymentName (ds ! i)) month))"
proof -
  have run: "snd (httpTrigger envs sched month (Inr ds) t)
      = awaitAll (runSchedule sched (startTasks envs month ds, t))"
    by (simp add: httpTrigger_def)
  have "length (fst (awaitAll (runSchedule sched (startTasks envs month ds, t)))) = length ds"
    by (simp add: awaitAll_runSchedule runSchedule_length startTasks_length)
  moreover have "fst (httpTrigger envs sched month (Inr ds) t)
      = \<lparr>status = 200, body = ''Success''\<rparr>"
    by (simp add: httpTrigger_def)
  ultimately show ?thesis
    unfolding run
    using started_alone [OF _ assms, of _ sched envs month t]
    by (simp add: settled_def initTask_def)
qed

theorem httpTrigger_isolates_deployments_witness:
  "distinct (map deploymentName twoDeployments)
   \<and> fst (httpTrigger firstMailFails [1, 0, 0, 1, 1] ''2024-10'' (Inr twoDeployments)
        (oneRecord 500 False)) = \<lparr>status = 200, body = ''Success''\<rparr>
   \<and> (1 :: nat) < length twoDeployments
   \<and> printed (fst (snd (httpTrigger firstMailFails [1, 0, 0, 1, 1] ''2024-10''
        (Inr twoDeployments) (oneRecord 500 False))) ! 0)
       = [(''gpt4dev'', Error ''Failed to send mail'')]
   \<and> printed (fst (snd (httpTrigger firstMailFails [1, 0, 0, 1, 1] ''2024-10''
        (Inr twoDeployments) (oneRecord 500 False))) ! 1) = []
   \<and> alertSent (snd (snd (httpTrigger firstMailFails [1, 0, 0, 1, 1] ''2024-10''
        (Inr twoDeployments) (oneRecord 500 False)))) (keyOf ''gpt35'' ''2024-10'')"
proof -
  have h: "distinct (map deploymentName twoDeployments)"
    by (simp add: twoDeployments_def)
  note iso = httpTrigger_isolates_deployments [where envs = firstMailFails
      and sched = "[1, 0, 0, 1, 1]" and month = "''2024-10''" and t = "oneRecord 500 False",
      OF h]
  have len: "(0 :: nat) < length twoDeployments" "(1 :: nat) < length twoDeployments"
    and n1: "deploymentName (twoDeployments ! 1) = ''gpt35''"
    by (simp_all add: twoDeployments_def)
  have r0: "logged (evaluateTokenUsageForAlert (firstMailFails 0)
      (deploymentName (twoDeployments ! 0)) (dataTotal (twoDeployments ! 0))
      ''2024-10'' (oneRecord 500 False)) = [(''gpt4dev'', Error ''Failed to send mail'')]"
    by (simp add: ev_defs sample_defs twoDeployments_def firstMailFails_def)
  have r1: "logged (evaluateTokenUsageForAlert (firstMailFails 1)
      (deploymentName (twoDeployments ! 1)) (dataTotal (twoDeployments ! 1))
      ''2024-10'' (oneRecord 500 False)) = []"
    and s1: "alertSent (tableAfter (evaluateTokenUsageForAlert (firstMailFails 1)
      (deploymentName (twoDeployments ! 1)) (dataTotal (twoDeployments ! 1))
      ''2024-10'' (oneRecord 500 False))) (keyOf (deploymentName (twoDeployments ! 1)) ''2024-10'')"
    by (simp_all add: ev_defs sample_defs twoDeployments_def firstMailFails_def)
  from iso have c1: "fst (httpTrigger firstMailFails [1, 0, 0, 1, 1] ''2024-10''
      (Inr twoDeployments) (oneRecord 500 False)) = \<lparr>status = 200, body = ''Success''\<rparr>"
    by (rule conjunct1)
  note each = iso [THEN conjunct2, THEN conjunct2, rule_format]
  from each [OF len(1)] r0
  have c2: "printed (fst (snd (httpTrigger firstMailFails [1, 0, 0, 1, 1] ''2024-10''
        (Inr twoDeployments) (oneRecord 500 False))) ! 0)
       = [(''gpt4dev'', Error ''Failed to send mail'')]"
    by simp
  from each [OF len(2)] r1
  have c3: "printed (fst (snd (httpTrigger firstMailFails [1, 0, 0, 1, 1] ''2024-10''
        (Inr twoDeployments) (oneRecord 500 False))) ! 1) = []"
    by simp
  from each [OF len(2)] s1
  have c4: "alertSent (snd (snd (httpTrigger firstMailFails [1, 0, 0, 1, 1] ''2024-10''
        (Inr twoDeployments) (oneRecord 500 False)))) (keyOf ''gpt35'' ''2024-10'')"
    unfolding n1 by (simp add: alertSent_def)
  from h c1 len(2) c2 c3 c4 show ?thesis by blast
qed

section \<open>Two scenarios\<close>

text \<open>
  Claim C9. With \<^verbatim>\<open>THRESHOLD\<close> 1000, no record stored and the sample 1500, when the
  create succeeds the reconciliation creates the record with usage 1500 and calls the
  notifier exactly once; when the notifier answers \<^verbatim>\<open>Succeeded\<close> and the alert write
  succeeds, the record left in the table has usage 1500 and the alert flag set, and
  no error is printed.
\<close>

theorem first_alert_scenario:
  assumes "getFault e = None" and "t (keyOf d m) = None"
    and "racer e = None" and "createFault e = None"
  shows "THRESHOLD = 1000
    \<and> take 2 (calls (evaluateTokenUsageForAlert e d 1500 m t))
        = [GetEntity DeploymentType (rowKeyOf d m),
           CreateEntity (initialEntity (rowKeyOf d m) 1500 (nowCreate e))]
    \<and> SumToken (initialEntity (rowKeyOf d m) 1500 (nowCreate e)) = 1500
    \<and> notifierCalls (evaluateTokenUsageForAlert e d 1500 m t) = 1
    \<and> cumulativeUsage (tableAfter (evaluateTokenUsageForAlert e d 1500 m t)) (keyOf d m) = Some 1500
    \<and> (mailResult e = Inr ''Succeeded'' \<and> alertWriteFault e = None \<longrightarrow>
         evaluateTokenUsageForAlert e d 1500 m t =
           \<lparr>tableAfter = t(keyOf d m \<mapsto>
              (initialEntity (rowKeyOf d m) 1500 (nowCreate e))
                \<lparr>ActionDone := True, LastUpdated := nowAlert e\<rparr>),
            calls = [GetEntity DeploymentType (rowKeyOf d m),
                     CreateEntity (initialEntity (rowKeyOf d m) 1500 (nowCreate e)),
                     SendMail d 1500,
                     UpdateEntity ((initialEntity (rowKeyOf d m) 1500 (nowCreate e))
                       \<lparr>ActionDone := True, LastUpdated := nowAlert e\<rparr>)],
            logged = []\<rparr>)"
  using assms
  by (auto simp: ev_defs keyOf_def shouldSendAlert_def cumulativeUsage_def THRESHOLD_def
      notifierCalls_def split: sum.splits option.splits)

theorem first_alert_scenario_witness:
  "getFault quietEnv = None \<and> oneRecord 500 False (keyOf ''gpt35'' ''2024-10'') = None
   \<and> racer quietEnv = None \<and> createFault quietEnv = None
   \<and> mailResult quietEnv = Inr ''Succeeded'' \<and> alertWriteFault quietEnv = None
   \<and> notifierCalls (evaluateTokenUsageForAlert quietEnv ''gpt35'' 1500 ''2024-10''
        (oneRecord 500 False)) = 1
   \<and> tableAfter (evaluateTokenUsageForAlert quietEnv ''gpt35'' 1500 ''2024-10''
        (oneRecord 500 False)) (keyOf ''gpt35'' ''2024-10'')
     = Some ((initialEntity (rowKeyOf ''gpt35'' ''2024-10'') 1500 (nowCreate quietEnv))
                \<lparr>ActionDone := True, LastUpdated := nowAlert quietEnv\<rparr>)"
proof -
  have h1: "getFault quietEnv = None" and h3: "racer quietEnv = None"
    and h4: "createFault quietEnv = None"
    and a: "mailResult quietEnv = Inr ''Succeeded'' \<and> alertWriteFault quietEnv = None"
    and h2: "oneRecord 500 False (keyOf ''gpt35'' ''2024-10'') = None"
    by (simp_all add: sample_defs)
  note sc = first_alert_scenario [where e = quietEnv and t = "oneRecord 500 False"
      and d = "''gpt35''" and m = "''2024-10''", OF h1 h2 h3 h4]
  from sc have c1: "notifierCalls (evaluateTokenUsageForAlert quietEnv ''gpt35'' 1500
      ''2024-10'' (oneRecord 500 False)) = 1"
    by blast
  from sc a have "tableAfter (evaluateTokenUsageForAlert quietEnv ''gpt35'' 1500 ''2024-10''
      (oneRecord 500 False)) =
        (oneRecord 500 False)(keyOf ''gpt35'' ''2024-10'' \<mapsto>
              (initialEntity (rowKeyOf ''gpt35'' ''2024-10'') 1500 (nowCreate quietEnv))
                \<lparr>ActionDone := True, LastUpdated := nowAlert quietEnv\<rparr>)"
    by simp
  then have c2: "tableAfter (evaluateTokenUsageForAlert quietEnv ''gpt35'' 1500 ''2024-10''
      (oneRecord 500 False)) (keyOf ''gpt35'' ''2024-10'')
     = Some ((initialEntity (rowKeyOf ''gpt35'' ''2024-10'') 1500 (nowCreate quietEnv))
                \<lparr>ActionDone := True, LastUpdated := nowAlert quietEnv\<rparr>)"
    by simp
  from h1 h2 h3 h4 a c1 c2 show ?thesis by blast
qed

text \<open>
  Claim C10. For every reconciliation of an existing record for which the alert policy
  answers false and the new usage is not above the stored usage, the table afterwards
  is the table before, so every field of the record, \<^verbatim>\<open>LastUpdated\<close> included, is
  unchanged, and no update is sent; when the read is answered, the read is the only
  call made and no error is printed.
\<close>

theorem no_write_when_nothing_changes:
  assumes "t (keyOf d m) = Some r" and "\<not> shouldSendAlert (Some r) n" and "n \<le> SumToken r"
  shows "tableAfter (evaluateTokenUsageForAlert e d n m t) = t
    \<and> (\<forall>x. UpdateEntity x \<notin> set (calls (evaluateTokenUsageForAlert e d n m t)))
    \<and> (getFault e = None \<longrightarrow>
         calls (evaluateTokenUsageForAlert e d n m t) = [GetEntity DeploymentType (rowKeyOf d m)]
         \<and> logged (evaluateTokenUsageForAlert e d n m t) = [])"
proof -
  let ?rk = "rowKeyOf d m"
  from assms(1) have r: "t (DeploymentType, ?rk) = Some r" by (simp add: keyOf_def)
  have t1: "fst (readOrCreate e ?rk n t) = t"
    using r by (rule readOrCreate_present)
  have c1: "\<forall>x. UpdateEntity x \<notin> set (fst (snd (readOrCreate e ?rk n t)))"
    by (simp add: readOrCreate_calls)
  have rd: "getFault e = None \<Longrightarrow> readOrCreate e ?rk n t =
      (t, [GetEntity DeploymentType ?rk], Inr (r\<lparr>partitionKey := DeploymentType, rowKey := ?rk\<rparr>))"
    using r by (simp add: readOrCreate_read)
  have rest: "alertStep e d n ent t = (t, [], Inr ent) \<and> usageStep e n ent t = (t, [], None)"
    if "mirrors t ?rk ent" for ent
    using mirrors_shouldSendAlert [OF that r, of n] assms(2,3)
    by (simp add: alertStep_not_due usageStep_not_higher)
  show ?thesis
  proof (cases rule: evaluate_cases [where e = e and d = d and m = m and n = n and t = t])
    case (ReadFailed t1 cs1 err)
    with t1 c1 rd show ?thesis by auto
  next
    case (AlertFailed t1 cs1 ent cs2 err)
    with t1 have "mirrors t ?rk ent" by (auto dest: readOrCreate_mirrors)
    from rest [OF this] AlertFailed t1 show ?thesis by simp
  next
    case (UsageFailed t1 cs1 ent t2 cs2 ent' cs3 err)
    with t1 have "mirrors t ?rk ent" by (auto dest: readOrCreate_mirrors)
    from rest [OF this] UsageFailed t1 show ?thesis by simp
  next
    case (Completed t1 cs1 ent t2 cs2 ent' t3 cs3)
    with t1 have "mirrors t ?rk ent" by (auto dest: readOrCreate_mirrors)
    from rest [OF this] Completed t1 c1 rd show ?thesis by auto
  qed
qed

theorem no_write_when_nothing_changes_witness:
  "oneRecord 500 False (keyOf ''gpt4dev'' ''2024-10'')
       = Some (storedEntity ''gpt4dev-2024-10'' 500 False)
   \<and> \<not> shouldSendAlert (Some (storedEntity ''gpt4dev-2024-10'' 500 False)) 400
   \<and> 400 \<le> SumToken (storedEntity ''gpt4dev-2024-10'' 500 False)
   \<and> getFault quietEnv = None
   \<and> tableAfter (evaluateTokenUsageForAlert quietEnv ''gpt4dev'' 400 ''2024-10''
        (oneRecord 500 False)) = oneRecord 500 False
   \<and> calls (evaluateTokenUsageForAlert quietEnv ''gpt4dev'' 400 ''2024-10''
        (oneRecord 500 False)) = [GetEntity DeploymentType (rowKeyOf ''gpt4dev'' ''2024-10'')]
   \<and> logged (evaluateTokenUsageForAlert quietEnv ''gpt4dev'' 400 ''2024-10''
        (oneRecord 500 False)) = []"
proof -
  have h1: "oneRecord 500 False (keyOf ''gpt4dev'' ''2024-10'')
       = Some (storedEntity ''gpt4dev-2024-10'' 500 False)"
    and h2: "\<not> shouldSendAlert (Some (storedEntity ''gpt4dev-2024-10'' 500 False)) 400"
    and h3: "400 \<le> SumToken (storedEntity ''gpt4dev-2024-10'' 500 False)"
    and h4: "getFault quietEnv = None"
    by (simp_all add: sample_defs)
  from h1 h2 h3 h4 no_write_when_nothing_changes [where e = quietEnv
      and t = "oneRecord 500 False" and d = "''gpt4dev''" and m = "''2024-10''" and n = 400
      and r = "storedEntity ''gpt4dev-2024-10'' 500 False", OF h1 h2 h3]
  show ?thesis by blast
qed

end
